theory Spec2Isabelle
  imports Main "HOL-Library.Word"
begin

section \<open>Bytes, slices and the \<open>struct\<close> codecs\<close>

text \<open>
  A Python \<open>bytes\<close> object is a list of 8-bit words. Offsets, lengths and the values
  that \<open>struct\<close> unpacks are Python integers that are never negative here, so
  they are natural numbers.
\<close>

type_synonym byte = "8 word"
type_synonym bytes = "byte list"

text \<open>
  The exceptions that the modelled code can raise. \<open>StructError\<close> is
  \<open>struct.error\<close> (a buffer of the wrong size, a value out of range),
  \<open>USBError\<close> is \<open>usb.core.USBError\<close>, \<open>UnicodeDecodeError\<close> is raised by
  \<open>bytes.decode\<close>. All of them derive from Python's \<open>Exception\<close>.
\<close>

datatype error = StructError | USBError | USBTransportError | RuntimeError | UnicodeDecodeError

text \<open>
  \<open>xs[a:b]\<close> for non-negative \<open>a\<close> and \<open>b\<close>: the elements at the indices
  \<open>a \<le> i < min b (len xs)\<close>; never an error, empty when \<open>b \<le> a\<close>.
\<close>

definition slice :: "'a list \<Rightarrow> nat \<Rightarrow> nat \<Rightarrow> 'a list" where
  "slice xs a b = take (b - a) (drop a xs)"

text \<open>The unsigned integer that a little-endian byte string denotes.\<close>

fun le_nat :: "bytes \<Rightarrow> nat" where
  "le_nat [] = 0"
| "le_nat (b # bs) = unat b + 256 * le_nat bs"

text \<open>
  \<open>struct.unpack_from("<I", data, offset)\<close> and \<open>struct.unpack_from("<II", data, offset)\<close>:
  \<open>struct.error\<close> unless the buffer holds 4 (8) bytes from the offset on.
\<close>

definition unpack_from_I :: "bytes \<Rightarrow> nat \<Rightarrow> error + nat" where
  "unpack_from_I data offset =
     (if offset + 4 \<le> length data then Inr (le_nat (slice data offset (offset + 4)))
      else Inl StructError)"

definition unpack_from_II :: "bytes \<Rightarrow> nat \<Rightarrow> error + nat \<times> nat" where
  "unpack_from_II data offset =
     (if offset + 8 \<le> length data
      then Inr (le_nat (slice data offset (offset + 4)),
                le_nat (slice data (offset + 4) (offset + 8)))
      else Inl StructError)"

text \<open>
  \<open>struct.unpack("<I", b)\<close> and \<open>struct.unpack("<II", b)\<close>: the buffer must have
  exactly the size of the format.
\<close>

definition unpack_I :: "bytes \<Rightarrow> error + nat" where
  "unpack_I b = (if length b = 4 then Inr (le_nat b) else Inl StructError)"

definition unpack_II :: "bytes \<Rightarrow> error + nat \<times> nat" where
  "unpack_II b =
     (if length b = 8 then Inr (le_nat (slice b 0 4), le_nat (slice b 4 8))
      else Inl StructError)"

section \<open>Constants (\<open>ptp/constants.py\<close>)\<close>

definition GET_DEVICE_INFO :: nat where "GET_DEVICE_INFO = 0x1001"
definition OPEN_SESSION :: nat where "OPEN_SESSION = 0x1002"
definition CLOSE_SESSION :: nat where "CLOSE_SESSION = 0x1003"
definition GET_EVENT :: nat where "GET_EVENT = 0x9116"
definition SHUTTER_RELEASE_COUNTER :: nat where "SHUTTER_RELEASE_COUNTER = 0xD167"
definition OK :: nat where "OK = 0x2001"
definition PROP_VALUE_CHANGED :: nat where "PROP_VALUE_CHANGED = 0xC189"
definition COMMAND :: nat where "COMMAND = 1"
definition DATA :: nat where "DATA = 2"
definition RESPONSE :: nat where "RESPONSE = 3"

section \<open>Event records (\<open>ptp/canon.py\<close>)\<close>

text \<open>
  \<open>EOSPropertyValue\<close>: a property code and a value that is an \<open>int\<close> or a
  \<open>bytes\<close> object.
\<close>

datatype prop_value = IntValue nat | BytesValue bytes

record EOSPropertyValue =
  property_code :: nat
  property_value :: prop_value

text \<open>
  The body of the branch \<open>event_code == PROP_VALUE_CHANGED\<close> of
  \<open>_parse_event_data\<close>, once \<open>record_data\<close> has been sliced out: the event it
  yields, if it yields one.
\<close>

definition decode_record :: "bytes \<Rightarrow> error + EOSPropertyValue option" where
  "decode_record record_data =
     (if 4 \<le> length record_data then
        (case unpack_from_I record_data 0 of
           Inl e \<Rightarrow> Inl e
         | Inr prop_code \<Rightarrow>
             (let prop_value = drop 4 record_data in
              if length prop_value = 4 then
                (case unpack_I prop_value of
                   Inl e \<Rightarrow> Inl e
                 | Inr v \<Rightarrow>
                     Inr (Some \<lparr>property_code = prop_code, property_value = IntValue v\<rparr>))
              else if prop_value \<noteq> [] then
                Inr (Some \<lparr>property_code = prop_code,
                           property_value = BytesValue prop_value\<rparr>)
              else Inr None))
      else Inr None)"

text \<open>
  One turn of the \<open>while\<close> loop of \<open>_parse_event_data\<close> at \<open>offset\<close>: the loop
  ends (\<open>Halt\<close>: the loop condition fails, or \<open>break\<close>), or it goes on at a new
  offset after yielding at most one event.
\<close>

datatype step = Halt | Advance "EOSPropertyValue option" nat

definition parse_step :: "bytes \<Rightarrow> nat \<Rightarrow> error + step" where
  "parse_step data offset =
     (if offset + 8 \<le> length data then
        (case unpack_from_II data offset of
           Inl e \<Rightarrow> Inl e
         | Inr (record_len, event_code) \<Rightarrow>
             if record_len = 0 \<or> event_code = 0 then Inr Halt
             else if event_code = PROP_VALUE_CHANGED then
               (case decode_record (slice data (offset + 8) (offset + record_len)) of
                  Inl e \<Rightarrow> Inl e
                | Inr ev \<Rightarrow> Inr (Advance ev (offset + record_len)))
             else Inr (Advance None (offset + record_len)))
      else Inr Halt)"

lemma parse_step_Advance:
  assumes "parse_step data offset = Inr (Advance ev offset')"
  shows "offset < offset' \<and> offset + 8 \<le> length data"
  using assms
  by (auto simp: parse_step_def unpack_from_II_def split: if_splits sum.splits)

text \<open>
  The loop itself, from a given offset; \<open>list(...)\<close> collects what the generator
  yields. An exception raised in any turn is the result of the whole call.
\<close>

function parse_event_data_from :: "bytes \<Rightarrow> nat \<Rightarrow> error + EOSPropertyValue list" where
  "parse_event_data_from data offset =
     (case parse_step data offset of
        Inl e \<Rightarrow> Inl e
      | Inr Halt \<Rightarrow> Inr []
      | Inr (Advance ev offset') \<Rightarrow>
          (case parse_event_data_from data offset' of
             Inl e \<Rightarrow> Inl e
           | Inr evs \<Rightarrow> Inr (case ev of None \<Rightarrow> evs | Some e \<Rightarrow> e # evs)))"
  by pat_completeness auto
termination
proof (relation "measure (\<lambda>(data, offset). length data - offset)")
  show "wf (measure (\<lambda>(data, offset). length data - offset))"
    by simp
next
  fix data :: bytes and offset :: nat and st ev offset'
  assume "parse_step data offset = Inr st" and "st = Advance ev offset'"
  then have "offset < offset' \<and> offset + 8 \<le> length data"
    using parse_step_Advance by simp
  then show "((data, offset'), (data, offset)) \<in> measure (\<lambda>(data, offset). length data - offset)"
    by auto
qed

declare parse_event_data_from.simps [simp del]

definition parse_event_data :: "bytes \<Rightarrow> error + EOSPropertyValue list" where
  "parse_event_data data = parse_event_data_from data 0"

text \<open>
  \<open>get_shutter_count\<close>, the loop over the events that \<open>get_event\<close> returned:
  the first event with the counter's property code whose value is a \<open>bytes\<close>
  object of at least 16 bytes decides the result.
\<close>

fun shutter_count_scan :: "EOSPropertyValue list \<Rightarrow> error + (nat \<times> nat) option" where
  "shutter_count_scan [] = Inr None"
| "shutter_count_scan (event # events) =
     (if property_code event = SHUTTER_RELEASE_COUNTER then
        (case property_value event of
           BytesValue b \<Rightarrow>
             if 16 \<le> length b then
               (case unpack_II (slice b 8 16) of
                  Inl e \<Rightarrow> Inl e
                | Inr (mechanical, total') \<Rightarrow> Inr (Some (mechanical, total')))
             else shutter_count_scan events
         | IntValue _ \<Rightarrow> shutter_count_scan events)
      else shutter_count_scan events)"

section \<open>Protocol strings and the device-info record (\<open>ptp/protocol.py\<close>)\<close>

text \<open>
  A Python \<open>str\<close> is a sequence of Unicode code points. \<open>bytes.decode("utf-16-le")\<close>
  reads 16-bit little-endian units: a unit outside \<open>D800..DFFF\<close> is a code point,
  a high surrogate followed by a low one is a code point from \<open>0x10000\<close> on, and
  anything else (a lone surrogate, an odd byte at the end) raises
  \<open>UnicodeDecodeError\<close>, the only exception of \<open>decode\<close>, which is \<open>None\<close> here.
\<close>

type_synonym py_str = "nat list"

fun decode_utf_16_le :: "bytes \<Rightarrow> py_str option" where
  "decode_utf_16_le [] = Some []"
| "decode_utf_16_le [b] = None"
| "decode_utf_16_le (b0 # b1 # rest) =
     (let u = unat b0 + 256 * unat b1 in
      if u < 0xD800 \<or> 0xDFFF < u then
        (case decode_utf_16_le rest of None \<Rightarrow> None | Some s \<Rightarrow> Some (u # s))
      else if u \<le> 0xDBFF then
        (case rest of
           c0 # c1 # rest' \<Rightarrow>
             (let v = unat c0 + 256 * unat c1 in
              if 0xDC00 \<le> v \<and> v \<le> 0xDFFF then
                (case decode_utf_16_le rest' of
                   None \<Rightarrow> None
                 | Some s \<Rightarrow> Some ((0x10000 + (u - 0xD800) * 0x400 + (v - 0xDC00)) # s))
              else None)
         | _ \<Rightarrow> None)
      else None)"

text \<open>
  \<open>_read_ptp_string\<close>: the count byte, then \<open>count * 2\<close> bytes of which all but the
  last two are decoded; \<open>except UnicodeDecodeError\<close> makes the string empty.
\<close>

definition read_ptp_string :: "bytes \<Rightarrow> nat \<Rightarrow> py_str \<times> nat" where
  "read_ptp_string data offset =
     (if length data \<le> offset then ([], offset)
      else
        (let num_chars = unat (data ! offset); offset1 = offset + 1 in
         if num_chars = 0 then ([], offset1)
         else
           (let byte_len = num_chars * 2 in
            if length data < offset1 + byte_len then ([], offset1)
            else
              (let string =
                 (case decode_utf_16_le (slice data offset1 (offset1 + byte_len - 2)) of
                    Some s \<Rightarrow> s
                  | None \<Rightarrow> [])
               in (string, offset1 + byte_len)))))"

text \<open>\<open>_skip_uint16_array\<close>, and the loop \<open>for _ in range(5)\<close> that calls it.\<close>

definition skip_uint16_array :: "bytes \<Rightarrow> nat \<Rightarrow> error + nat" where
  "skip_uint16_array data offset =
     (if length data < offset + 4 then Inr offset
      else
        (case unpack_from_I data offset of
           Inl e \<Rightarrow> Inl e
         | Inr count \<Rightarrow> Inr (offset + 4 + count * 2)))"

fun skip_arrays :: "nat \<Rightarrow> bytes \<Rightarrow> nat \<Rightarrow> error + nat" where
  "skip_arrays 0 data offset = Inr offset"
| "skip_arrays (Suc n) data offset =
     (case skip_uint16_array data offset of
        Inl e \<Rightarrow> Inl e
      | Inr offset' \<Rightarrow> skip_arrays n data offset')"

text \<open>\<open>DeviceInfo\<close> and \<open>_parse_device_info\<close>.\<close>

record DeviceInfo =
  manufacturer :: py_str
  model :: py_str
  device_version :: py_str

definition parse_device_info :: "bytes \<Rightarrow> error + DeviceInfo" where
  "parse_device_info data =
     (let offset = 8;
          (vendor_extension_desc, offset) = read_ptp_string data offset;
          offset = offset + 2
      in case skip_arrays 5 data offset of
           Inl e \<Rightarrow> Inl e
         | Inr offset \<Rightarrow>
             (let (manufacturer, offset) = read_ptp_string data offset;
                  (model, offset) = read_ptp_string data offset;
                  (device_version, offset) = read_ptp_string data offset
              in Inr \<lparr>manufacturer = manufacturer, model = model,
                       device_version = device_version\<rparr>))"

text \<open>The Python string of an ASCII literal.\<close>

definition str_of :: "string \<Rightarrow> py_str" where
  "str_of s = map of_char s"

section \<open>The USB transport (\<open>ptp/transport.py\<close>)\<close>

text \<open>
  \<open>struct.pack\<close>: an unsigned field of \<open>n\<close> bytes holds the values below
  \<open>256 ^ n\<close>; a value out of range raises \<open>struct.error\<close>. \<open>pack_IHHI\<close> is the
  format \<open>"<IHHI"\<close> of the 12-byte container header, \<open>pack_params\<close> is
  \<open>b"".join(struct.pack("<I", p) for p in params)\<close>.
\<close>

fun le_bytes :: "nat \<Rightarrow> nat \<Rightarrow> bytes" where
  "le_bytes 0 v = []"
| "le_bytes (Suc n) v = of_nat (v mod 256) # le_bytes n (v div 256)"

definition pack_I :: "nat \<Rightarrow> error + bytes" where
  "pack_I v = (if v < 2 ^ 32 then Inr (le_bytes 4 v) else Inl StructError)"

definition pack_IHHI :: "nat \<Rightarrow> nat \<Rightarrow> nat \<Rightarrow> nat \<Rightarrow> error + bytes" where
  "pack_IHHI a b c d =
     (if a < 2 ^ 32 \<and> b < 2 ^ 16 \<and> c < 2 ^ 16 \<and> d < 2 ^ 32
      then Inr (le_bytes 4 a @ le_bytes 2 b @ le_bytes 2 c @ le_bytes 4 d)
      else Inl StructError)"

definition unpack_IHHI :: "bytes \<Rightarrow> error + nat \<times> nat \<times> nat \<times> nat" where
  "unpack_IHHI b =
     (if length b = 12
      then Inr (le_nat (slice b 0 4), le_nat (slice b 4 6), le_nat (slice b 6 8),
                le_nat (slice b 8 12))
      else Inl StructError)"

fun pack_params :: "nat list \<Rightarrow> error + bytes" where
  "pack_params [] = Inr []"
| "pack_params (p # ps) =
     (case pack_I p of
        Inl e \<Rightarrow> Inl e
      | Inr b \<Rightarrow> (case pack_params ps of Inl e \<Rightarrow> Inl e | Inr bs \<Rightarrow> Inr (b @ bs)))"

text \<open>
  \<open>xs[:n]\<close> for an integer \<open>n\<close> that may be negative: a negative stop counts from
  the end of the list.
\<close>

definition prefix_to :: "'a list \<Rightarrow> int \<Rightarrow> 'a list" where
  "prefix_to xs n = (if 0 \<le> n then take (nat n) xs else take (length xs - nat (- n)) xs)"

text \<open>
  The USB endpoints are the environment of the transport. The in-endpoint is the
  list of what the coming calls of \<open>read\<close> will return: a chunk of bytes, or
  \<open>usb.core.USBError\<close>; when nothing is left the device is silent and the read
  times out, which is \<open>USBError\<close> as well. The out-endpoint records the packets
  written to it, and says which of the coming calls of \<open>write\<close> will raise
  \<open>USBError\<close> (none, when the list is empty).
\<close>

datatype usb_read = Delivers bytes | ReadFails

record out_endpoint =
  written :: "bytes list"
  write_faults :: "bool list"

type_synonym in_endpoint = "usb_read list"

definition ep_write :: "out_endpoint \<Rightarrow> bytes \<Rightarrow> (error + unit) \<times> out_endpoint" where
  "ep_write ep packet =
     (case write_faults ep of
        [] \<Rightarrow> (Inr (), ep\<lparr>written := written ep @ [packet]\<rparr>)
      | fault # faults \<Rightarrow>
          if fault then (Inl USBError, ep\<lparr>write_faults := faults\<rparr>)
          else (Inr (), ep\<lparr>written := written ep @ [packet], write_faults := faults\<rparr>))"

definition ep_read :: "in_endpoint \<Rightarrow> (error + bytes) \<times> in_endpoint" where
  "ep_read ep =
     (case ep of
        [] \<Rightarrow> (Inl USBError, [])
      | ReadFails # rest \<Rightarrow> (Inl USBError, rest)
      | Delivers raw # rest \<Rightarrow> (Inr raw, rest))"

lemma ep_read_Inr: "ep_read ep = (Inr raw, ep') \<Longrightarrow> length ep' < length ep"
  by (auto simp: ep_read_def split: list.splits usb_read.splits)

lemma ep_read_Inr': "(Inr raw, ep') = ep_read ep \<Longrightarrow> length ep' < length ep"
  using ep_read_Inr [of ep raw ep'] by simp

lemma ep_read_length: "length (snd (ep_read ep)) \<le> length ep"
  by (auto simp: ep_read_def split: list.splits usb_read.splits)

text \<open>
  \<open>USBTransport\<close>: the two bulk endpoints (\<open>None\<close> before \<open>connect\<close> and after
  \<open>disconnect\<close>) and the counter \<open>_transaction_id\<close>. The property
  \<open>transaction_id\<close> returns the counter and increments it.
\<close>

record USBTransport =
  out_ep :: "out_endpoint option"
  in_ep :: "in_endpoint option"
  priv_transaction_id :: nat

definition transaction_id :: "USBTransport \<Rightarrow> nat \<times> USBTransport" where
  "transaction_id self =
     (let tid = priv_transaction_id self
      in (tid, self\<lparr>priv_transaction_id := priv_transaction_id self + 1\<rparr>))"

definition reset_transaction_id :: "USBTransport \<Rightarrow> USBTransport" where
  "reset_transaction_id self = self\<lparr>priv_transaction_id := 0\<rparr>"

text \<open>
  The inner loop of \<open>send_command\<close>:
  \<open>while len(response_data) + 12 < pkt_len: response_data += bytes(read(...))\<close>.
\<close>

function read_more :: "nat \<Rightarrow> bytes \<Rightarrow> in_endpoint \<Rightarrow> (error + bytes) \<times> in_endpoint" where
  "read_more pkt_len response_data ep =
     (if length response_data + 12 < pkt_len then
        (case ep_read ep of
           (Inl e, ep') \<Rightarrow> (Inl e, ep')
         | (Inr more', ep') \<Rightarrow> read_more pkt_len (response_data @ more') ep')
      else (Inr response_data, ep))"
  by pat_completeness auto
termination
  by (relation "measure (\<lambda>(pkt_len, response_data, ep). length ep)")
    (auto dest: ep_read_Inr')

declare read_more.simps [simp del]

lemma read_more_length: "length (snd (read_more pkt_len response_data ep)) \<le> length ep"
proof (induction pkt_len response_data ep rule: read_more.induct)
  case (1 pkt_len response_data ep)
  show ?case
  proof (cases "length response_data + 12 < pkt_len")
    case False
    then show ?thesis by (simp add: read_more.simps [of pkt_len response_data ep])
  next
    case True
    obtain r ep' where r: "ep_read ep = (r, ep')" by (cases "ep_read ep")
    show ?thesis
    proof (cases r)
      case (Inl e)
      with True r ep_read_length [of ep] show ?thesis
        by (simp add: read_more.simps [of pkt_len response_data ep])
    next
      case (Inr more')
      have "length (snd (read_more pkt_len (response_data @ more') ep')) \<le> length ep'"
        using "1.IH" True r Inr by simp
      moreover have "length ep' < length ep"
        using r Inr ep_read_Inr by simp
      ultimately show ?thesis using True r Inr
        by (simp add: read_more.simps [of pkt_len response_data ep])
    qed
  qed
qed

lemma read_more_length': "(r, ep2) = read_more pkt_len response_data ep \<Longrightarrow> length ep2 \<le> length ep"
  using read_more_length [of pkt_len response_data ep] by (metis snd_conv)

text \<open>
  The loop \<open>while True\<close> of \<open>send_command\<close>, entered with \<open>response_data\<close>
  empty: each turn reads one container. A Data container sets \<open>response_data\<close>
  and the loop goes on; a Response container returns; any other type, and a
  packet shorter than the header, raises \<open>USBTransportError\<close>.
\<close>

function receive :: "bytes \<Rightarrow> in_endpoint \<Rightarrow> (error + nat \<times> bytes) \<times> in_endpoint" where
  "receive response_data ep =
     (case ep_read ep of
        (Inl e, ep1) \<Rightarrow> (Inl e, ep1)
      | (Inr raw_bytes, ep1) \<Rightarrow>
          if length raw_bytes < 12 then (Inl USBTransportError, ep1)
          else
            (case unpack_IHHI (take 12 raw_bytes) of
               Inl e \<Rightarrow> (Inl e, ep1)
             | Inr (pkt_len, pkt_type, pkt_code, pkt_tid) \<Rightarrow>
                 if pkt_type = DATA then
                   (case read_more pkt_len (drop 12 raw_bytes) ep1 of
                      (Inl e, ep2) \<Rightarrow> (Inl e, ep2)
                    | (Inr response_data', ep2) \<Rightarrow>
                        receive (prefix_to response_data' (int pkt_len - 12)) ep2)
                 else if pkt_type = RESPONSE then (Inr (pkt_code, response_data), ep1)
                 else (Inl USBTransportError, ep1)))"
  by pat_completeness auto
termination
  by (relation "measure (\<lambda>(response_data, ep). length ep)")
    (auto dest!: ep_read_Inr' read_more_length')

declare receive.simps [simp del]

text \<open>
  The packets that \<open>send_command\<close> builds, and a write or the reads inside
  \<open>try ... except usb.core.USBError\<close>, which turns \<open>USBError\<close> into
  \<open>USBTransportError\<close> and lets every other exception pass.
\<close>

definition command_packet :: "nat \<Rightarrow> nat \<Rightarrow> nat list \<Rightarrow> error + bytes" where
  "command_packet operation_code tid params =
     (case pack_params params of
        Inl e \<Rightarrow> Inl e
      | Inr param_data \<Rightarrow>
          (case pack_IHHI (12 + length param_data) COMMAND operation_code tid of
             Inl e \<Rightarrow> Inl e
           | Inr header \<Rightarrow> Inr (header @ param_data)))"

definition data_packet :: "nat \<Rightarrow> nat \<Rightarrow> bytes \<Rightarrow> error + bytes" where
  "data_packet operation_code tid data =
     (case pack_IHHI (12 + length data) DATA operation_code tid of
        Inl e \<Rightarrow> Inl e
      | Inr header \<Rightarrow> Inr (header @ data))"

definition wrap_usb_error :: "error \<Rightarrow> error" where
  "wrap_usb_error e = (if e = USBError then USBTransportError else e)"

definition write_packet :: "out_endpoint \<Rightarrow> bytes \<Rightarrow> (error + unit) \<times> out_endpoint" where
  "write_packet ep packet =
     (case ep_write ep packet of
        (Inl e, ep') \<Rightarrow> (Inl (wrap_usb_error e), ep')
      | (Inr u, ep') \<Rightarrow> (Inr u, ep'))"

definition send_data ::
  "out_endpoint \<Rightarrow> nat \<Rightarrow> nat \<Rightarrow> bytes option \<Rightarrow> (error + unit) \<times> out_endpoint" where
  "send_data ep operation_code tid data =
     (case data of
        None \<Rightarrow> (Inr (), ep)
      | Some d \<Rightarrow>
          (case data_packet operation_code tid d of
             Inl e \<Rightarrow> (Inl e, ep)
           | Inr packet \<Rightarrow> write_packet ep packet))"

definition receive_response :: "in_endpoint \<Rightarrow> (error + nat \<times> bytes) \<times> in_endpoint" where
  "receive_response ep =
     (case receive [] ep of
        (Inl e, ep') \<Rightarrow> (Inl (wrap_usb_error e), ep')
      | (Inr r, ep') \<Rightarrow> (Inr r, ep'))"

text \<open>
  \<open>send_command\<close>. Without the endpoints it raises \<open>USBTransportError\<close> before
  anything else happens; otherwise it draws the transaction id and then sends the
  command, sends the data if there is any, and receives.
\<close>

definition send_command ::
  "USBTransport \<Rightarrow> nat \<Rightarrow> nat list option \<Rightarrow> bytes option
     \<Rightarrow> (error + nat \<times> bytes) \<times> USBTransport" where
  "send_command self operation_code params data =
     (case (out_ep self, in_ep self) of
        (Some out, Some inp) \<Rightarrow>
          (let params = (case params of None \<Rightarrow> [] | Some ps \<Rightarrow> ps);
               (tid, self) = transaction_id self
           in case command_packet operation_code tid params of
                Inl e \<Rightarrow> (Inl e, self)
              | Inr cmd_packet \<Rightarrow>
                  (case write_packet out cmd_packet of
                     (Inl e, out) \<Rightarrow> (Inl e, self\<lparr>out_ep := Some out\<rparr>)
                   | (Inr _, out) \<Rightarrow>
                       (case send_data out operation_code tid data of
                          (Inl e, out) \<Rightarrow> (Inl e, self\<lparr>out_ep := Some out\<rparr>)
                        | (Inr _, out) \<Rightarrow>
                            (case receive_response inp of
                               (r, inp) \<Rightarrow>
                                 (r, self\<lparr>out_ep := Some out, in_ep := Some inp\<rparr>)))))
      | _ \<Rightarrow> (Inl USBTransportError, self))"

section \<open>Sessions and queries (\<open>ptp/protocol.py\<close>, \<open>ptp/canon.py\<close>)\<close>

text \<open>
  A \<open>PTPProtocol\<close> object holds nothing but its transport, so its methods are
  functions of the transport's state.
\<close>

definition open_session :: "USBTransport \<Rightarrow> (error + unit) \<times> USBTransport" where
  "open_session self =
     (case send_command self OPEN_SESSION (Some [1]) None of
        (Inl e, self) \<Rightarrow> (Inl e, self)
      | (Inr (response_code, _), self) \<Rightarrow>
          if response_code \<noteq> OK then (Inl RuntimeError, self)
          else (Inr (), reset_transaction_id self))"

text \<open>
  \<open>except Exception\<close> catches every exception that derives from \<open>Exception\<close>;
  each exception of the model does.
\<close>

fun is_Exception :: "error \<Rightarrow> bool" where
  "is_Exception StructError = True"
| "is_Exception USBError = True"
| "is_Exception USBTransportError = True"
| "is_Exception RuntimeError = True"
| "is_Exception UnicodeDecodeError = True"

definition close_session :: "USBTransport \<Rightarrow> (error + unit) \<times> USBTransport" where
  "close_session self =
     (case send_command self CLOSE_SESSION None None of
        (Inl e, self) \<Rightarrow> if is_Exception e then (Inr (), self) else (Inl e, self)
      | (Inr _, self) \<Rightarrow> (Inr (), self))"

definition get_device_info :: "USBTransport \<Rightarrow> (error + DeviceInfo) \<times> USBTransport" where
  "get_device_info self =
     (case send_command self GET_DEVICE_INFO None None of
        (Inl e, self) \<Rightarrow> (Inl e, self)
      | (Inr (response_code, data), self) \<Rightarrow>
          if response_code \<noteq> OK then (Inl RuntimeError, self)
          else (parse_device_info data, self))"

definition get_event :: "USBTransport \<Rightarrow> (error + EOSPropertyValue list) \<times> USBTransport" where
  "get_event self =
     (case send_command self GET_EVENT None None of
        (Inl e, self) \<Rightarrow> (Inl e, self)
      | (Inr (response_code, data), self) \<Rightarrow>
          if response_code \<noteq> OK then (Inl RuntimeError, self)
          else (parse_event_data data, self))"

definition get_shutter_count ::
  "USBTransport \<Rightarrow> (error + (nat \<times> nat) option) \<times> USBTransport" where
  "get_shutter_count self =
     (case get_event self of
        (Inl e, self) \<Rightarrow> (Inl e, self)
      | (Inr events, self) \<Rightarrow> (shutter_count_scan events, self))"

section \<open>Reading aids for the statements\<close>

text \<open>
  The fields of the record that starts at \<open>offset\<close>: its length \<open>L\<close>, its event
  code, and its data (what the buffer holds between \<open>offset + 8\<close> and
  \<open>offset + L\<close>).
\<close>

definition record_len_at :: "bytes \<Rightarrow> nat \<Rightarrow> nat" where
  "record_len_at data offset = le_nat (slice data offset (offset + 4))"

definition event_code_at :: "bytes \<Rightarrow> nat \<Rightarrow> nat" where
  "event_code_at data offset = le_nat (slice data (offset + 4) (offset + 8))"

definition record_data_at :: "bytes \<Rightarrow> nat \<Rightarrow> bytes" where
  "record_data_at data offset =
     slice data (offset + 8) (offset + record_len_at data offset)"

text \<open>What \<open>get_shutter_count\<close> looks for, and the two counters of such an event.\<close>

definition is_counter_event :: "EOSPropertyValue \<Rightarrow> bool" where
  "is_counter_event event =
     (property_code event = SHUTTER_RELEASE_COUNTER \<and>
      (case property_value event of BytesValue b \<Rightarrow> 16 \<le> length b | IntValue _ \<Rightarrow> False))"

fun value_bytes :: "prop_value \<Rightarrow> bytes" where
  "value_bytes (BytesValue b) = b"
| "value_bytes (IntValue _) = []"

definition counters_of :: "EOSPropertyValue \<Rightarrow> nat \<times> nat" where
  "counters_of event =
     (le_nat (slice (value_bytes (property_value event)) 8 12),
      le_nat (slice (value_bytes (property_value event)) 12 16))"

text \<open>
  The fields of the protocol string that starts at \<open>offset\<close>: the count byte \<open>C\<close>,
  the \<open>(C - 1) * 2\<close> bytes that are decoded, and all the \<open>C * 2\<close> bytes with the
  terminator.
\<close>

definition count_at :: "bytes \<Rightarrow> nat \<Rightarrow> nat" where
  "count_at data offset = unat (data ! offset)"

definition string_bytes_at :: "bytes \<Rightarrow> nat \<Rightarrow> bytes" where
  "string_bytes_at data offset =
     slice data (offset + 1) (offset + 1 + (count_at data offset - 1) * 2)"

definition all_bytes_at :: "bytes \<Rightarrow> nat \<Rightarrow> bytes" where
  "all_bytes_at data offset = slice data (offset + 1) (offset + 1 + count_at data offset * 2)"

text \<open>
  The spec's words for skipping one array: a u32 element count \<open>N\<close> followed by
  \<open>N\<close> 16-bit elements; with fewer than 4 bytes remaining the offset is unchanged.
\<close>

definition spec_skip_array :: "bytes \<Rightarrow> nat \<Rightarrow> nat" where
  "spec_skip_array data offset =
     (if length data - offset < 4 then offset
      else offset + 4 + 2 * le_nat (slice data offset (offset + 4)))"

text \<open>
  The spec's words for the protocol string of a text: the count of its characters
  and the terminator, then each character and the terminator as UTF-16LE units
  (for characters below \<open>0xD800\<close>).
\<close>

definition spec_ptp_string :: "py_str \<Rightarrow> bytes" where
  "spec_ptp_string s =
     of_nat (length s + 1) #
     concat (map (\<lambda>c. [of_nat (c mod 256), of_nat (c div 256)]) s) @ [0, 0]"

text \<open>
  A device-info buffer: 8 bytes of versions, an empty vendor description, the
  functional mode, five empty arrays, then the three strings.
\<close>

definition example_device_info :: bytes where
  "example_device_info =
     [100, 0, 11, 0, 0, 0, 100, 0] @ [0] @ [0, 0] @
     [0, 0, 0, 0] @ [0, 0, 0, 0] @ [0, 0, 0, 0] @ [0, 0, 0, 0] @ [0, 0, 0, 0] @
     spec_ptp_string (str_of ''Canon'') @
     spec_ptp_string (str_of ''Canon EOS R7'') @
     spec_ptp_string (str_of ''1.0.0'')"

text \<open>The fields of the 12-byte header of a container.\<close>

definition packet_len :: "bytes \<Rightarrow> nat" where
  "packet_len raw = le_nat (slice raw 0 4)"

definition packet_type :: "bytes \<Rightarrow> nat" where
  "packet_type raw = le_nat (slice raw 4 6)"

definition packet_code :: "bytes \<Rightarrow> nat" where
  "packet_code raw = le_nat (slice raw 6 8)"

definition packet_tid :: "bytes \<Rightarrow> nat" where
  "packet_tid raw = le_nat (slice raw 8 12)"

text \<open>
  A transport is connected when it has both endpoints. The log of a transport is
  what has been written to its out-endpoint.
\<close>

definition connected :: "USBTransport \<Rightarrow> bool" where
  "connected self = (out_ep self \<noteq> None \<and> in_ep self \<noteq> None)"

definition packets_written :: "USBTransport \<Rightarrow> bytes list" where
  "packets_written self = (case out_ep self of None \<Rightarrow> [] | Some ep \<Rightarrow> written ep)"

text \<open>
  The chunks that the reads after the first one deliver reassemble a payload of
  \<open>pkt_len - 12\<close> bytes when the declared length is reached with the last of
  them and not before (with no chunk: the first read already holds it all).
\<close>

definition reassembles :: "nat \<Rightarrow> bytes \<Rightarrow> bytes list \<Rightarrow> bool" where
  "reassembles pkt_len first_chunk chunks =
     (pkt_len \<le> length (first_chunk @ concat chunks) + 12 \<and>
      (chunks = [] \<or> length (first_chunk @ concat (butlast chunks)) + 12 < pkt_len))"

text \<open>
  A connected transport whose counter stands at 7 and whose device will answer
  two commands with the response code OK.
\<close>

definition example_transport :: USBTransport where
  "example_transport =
     \<lparr>out_ep = Some \<lparr>written = [], write_faults = []\<rparr>,
      in_ep = Some [Delivers [12,0,0,0, 3,0, 0x01,0x20, 7,0,0,0],
                    Delivers [12,0,0,0, 3,0, 0x01,0x20, 0,0,0,0]],
      priv_transaction_id = 7\<rparr>"

text \<open>
  The answer to GetEvent of the spec's example: one property-value-changed record
  for the property \<open>0xD167\<close> whose value is 8 reserved bytes and twice the
  little-endian u32 150000, then a terminator of zero length.
\<close>

definition example_event_buffer :: bytes where
  "example_event_buffer =
     [28,0,0,0, 0x89,0xC1,0,0, 0x67,0xD1,0,0,
      0,0,0,0, 0,0,0,0, 0xF0,0x49,0x02,0, 0xF0,0x49,0x02,0,
      0,0,0,0, 0,0,0,0]"

section \<open>Event records: auxiliary facts\<close>

lemma parse_step_unfold:
  "parse_step data offset =
     (if offset + 8 \<le> length data then
        if record_len_at data offset = 0 \<or> event_code_at data offset = 0 then Inr Halt
        else if event_code_at data offset = PROP_VALUE_CHANGED then
          (case decode_record (record_data_at data offset) of
             Inl e \<Rightarrow> Inl e
           | Inr ev \<Rightarrow> Inr (Advance ev (offset + record_len_at data offset)))
        else Inr (Advance None (offset + record_len_at data offset))
      else Inr Halt)"
  by (simp add: parse_step_def unpack_from_II_def record_len_at_def event_code_at_def
      record_data_at_def split: sum.splits)

lemma decode_record_unfold:
  "decode_record record_data =
     (if length (drop 4 record_data) = 4 then
        Inr (Some \<lparr>property_code = le_nat (take 4 record_data),
                   property_value = IntValue (le_nat (drop 4 record_data))\<rparr>)
      else if drop 4 record_data \<noteq> [] then
        Inr (Some \<lparr>property_code = le_nat (take 4 record_data),
                   property_value = BytesValue (drop 4 record_data)\<rparr>)
      else Inr None)"
  by (auto simp: decode_record_def unpack_from_I_def unpack_I_def slice_def Let_def)

lemma decode_record_no_error: "\<exists>ev. decode_record record_data = Inr ev"
  by (simp add: decode_record_unfold)

lemma parse_step_no_error: "\<exists>st. parse_step data offset = Inr st"
  using decode_record_no_error [of "record_data_at data offset"]
  by (auto simp: parse_step_unfold)

lemma parse_event_data_from_no_error: "\<exists>evs. parse_event_data_from data offset = Inr evs"
proof (induction data offset rule: parse_event_data_from.induct)
  case (1 data offset)
  obtain st where st: "parse_step data offset = Inr st"
    using parse_step_no_error by blast
  show ?case
  proof (cases st)
    case Halt
    with st show ?thesis by (simp add: parse_event_data_from.simps)
  next
    case (Advance ev offset')
    with st "1.IH" obtain evs where "parse_event_data_from data offset' = Inr evs"
      by blast
    with st Advance show ?thesis
      by (simp add: parse_event_data_from.simps [of data offset])
  qed
qed

lemma record_data_at_length:
  "length (record_data_at data offset) \<le> length data - (offset + 8) \<and>
   length (record_data_at data offset) \<le> record_len_at data offset - 8"
  by (simp add: record_data_at_def slice_def)

lemma record_data_at_eq:
  "record_data_at data offset = take (record_len_at data offset - 8) (drop (offset + 8) data)"
  by (simp add: record_data_at_def slice_def)

lemma unpack_II_slice:
  "16 \<le> length b \<Longrightarrow>
   unpack_II (slice b 8 16) = Inr (le_nat (slice b 8 12), le_nat (slice b 12 16))"
  by (simp add: unpack_II_def slice_def take_drop min_def add.commute)

lemma parse_step_halts_skips_aux:
  "parse_step data offset = Inr Halt \<longleftrightarrow>
     record_len_at data offset = 0 \<or> event_code_at data offset = 0 \<or>
     length data < offset + 8"
  using decode_record_no_error [of "record_data_at data offset"]
  by (auto simp: parse_step_unfold)

lemma parse_event_data_from_Advance:
  assumes "parse_step data offset = Inr (Advance ev offset')"
  shows "\<exists>events. parse_event_data_from data offset' = Inr events \<and>
           parse_event_data_from data offset =
             Inr (case ev of None \<Rightarrow> events | Some e \<Rightarrow> e # events)"
proof -
  obtain events where "parse_event_data_from data offset' = Inr events"
    using parse_event_data_from_no_error by blast
  with assms show ?thesis
    by (simp add: parse_event_data_from.simps [of data offset])
qed

lemma parse_event_data_from_end:
  "length data < offset + 8 \<Longrightarrow> parse_event_data_from data offset = Inr []"
  by (simp add: parse_event_data_from.simps [of data offset] parse_step_unfold)

section \<open>Device info: auxiliary facts\<close>

lemma skip_uint16_array_spec: "skip_uint16_array data offset = Inr (spec_skip_array data offset)"
  by (auto simp: skip_uint16_array_def spec_skip_array_def unpack_from_I_def)

lemma skip_arrays_5:
  "skip_arrays 5 data offset =
     Inr (spec_skip_array data (spec_skip_array data (spec_skip_array data
            (spec_skip_array data (spec_skip_array data offset)))))"
  by (simp add: eval_nat_numeral skip_uint16_array_spec)

lemma parse_device_info_unfold: "parse_device_info data =
     (let offset1 = snd (read_ptp_string data 8);
          offset2 = offset1 + 2;
          offset3 = spec_skip_array data (spec_skip_array data (spec_skip_array data
                      (spec_skip_array data (spec_skip_array data offset2))));
          offset4 = snd (read_ptp_string data offset3);
          offset5 = snd (read_ptp_string data offset4)
      in Inr \<lparr>manufacturer = fst (read_ptp_string data offset3),
               model = fst (read_ptp_string data offset4),
               device_version = fst (read_ptp_string data offset5)\<rparr>)"
    by (simp add: parse_device_info_def skip_arrays_5 Let_def split_beta)

lemma example_device_info_literal: "example_device_info = [100, 0, 11, 0, 0, 0, 100, 0, 0, 0, 0,
     0, 0, 0, 0, 0, 0, 0, 0, 0, 0, 0, 0, 0, 0, 0, 0, 0, 0, 0, 0,
     6, 67, 0, 97, 0, 110, 0, 111, 0, 110, 0, 0, 0,
     13, 67, 0, 97, 0, 110, 0, 111, 0, 110, 0, 32, 0, 69, 0, 79, 0, 83, 0, 32, 0, 82, 0, 55, 0, 0, 0,
     6, 49, 0, 46, 0, 48, 0, 46, 0, 48, 0, 0, 0]"
  by (simp add: example_device_info_def spec_ptp_string_def str_of_def)


lemma example_read_8: "read_ptp_string example_device_info 8 = ([], 9)"
  by (simp add: example_device_info_literal read_ptp_string_def)

lemma example_skip_11: "spec_skip_array example_device_info 11 = 15"
  by (simp add: example_device_info_literal spec_skip_array_def slice_def)

lemma example_read_44: "read_ptp_string example_device_info 44 = (str_of ''Canon EOS R7'', 71)"
  by (simp add: example_device_info_literal read_ptp_string_def slice_def str_of_def)


lemma example_skip_15: "spec_skip_array example_device_info 15 = 19"
  by (simp add: example_device_info_literal spec_skip_array_def slice_def)
lemma example_skip_19: "spec_skip_array example_device_info 19 = 23"
  by (simp add: example_device_info_literal spec_skip_array_def slice_def)
lemma example_skip_23: "spec_skip_array example_device_info 23 = 27"
  by (simp add: example_device_info_literal spec_skip_array_def slice_def)
lemma example_skip_27: "spec_skip_array example_device_info 27 = 31"
  by (simp add: example_device_info_literal spec_skip_array_def slice_def)
lemma example_read_31: "read_ptp_string example_device_info 31 = (str_of ''Canon'', 44)"
  by (simp add: example_device_info_literal read_ptp_string_def slice_def str_of_def)
lemma example_read_71: "read_ptp_string example_device_info 71 = (str_of ''1.0.0'', 84)"
  by (simp add: example_device_info_literal read_ptp_string_def slice_def str_of_def)

lemma example_device_info_parsed: "parse_device_info example_device_info =
     Inr \<lparr>manufacturer = str_of ''Canon'', model = str_of ''Canon EOS R7'',
           device_version = str_of ''1.0.0''\<rparr>"
  by (simp add: parse_device_info_unfold [of example_device_info] example_read_8 example_skip_11 example_skip_15 example_skip_19 example_skip_23 example_skip_27 example_read_31 example_read_44 example_read_71)

lemma read_ptp_string_unfold:
  "read_ptp_string data offset =
     (if length data \<le> offset then ([], offset)
      else if count_at data offset = 0 then ([], offset + 1)
      else if length data < offset + 1 + count_at data offset * 2 then ([], offset + 1)
      else (case decode_utf_16_le (string_bytes_at data offset) of Some s \<Rightarrow> s | None \<Rightarrow> [],
            offset + 1 + count_at data offset * 2))"
proof (cases "unat (data ! offset)")
  case 0
  then show ?thesis
    by (simp add: read_ptp_string_def count_at_def)
next
  case (Suc n)
  then show ?thesis
    by (simp add: read_ptp_string_def count_at_def string_bytes_at_def Let_def)
qed

section \<open>Transport: auxiliary facts\<close>

lemma slice_take: "b \<le> n \<Longrightarrow> slice (take n xs) a b = slice xs a b"
  by (simp add: slice_def drop_take min_def)

lemma unpack_IHHI_header:
  "12 \<le> length raw \<Longrightarrow>
   unpack_IHHI (take 12 raw) =
     Inr (packet_len raw, packet_type raw, packet_code raw, packet_tid raw)"
  by (simp add: unpack_IHHI_def packet_len_def packet_type_def packet_code_def
      packet_tid_def slice_take)

lemma receive_Nil: "receive response_data [] = (Inl USBError, [])"
  by (simp add: receive.simps [of response_data "[]"] ep_read_def)

lemma receive_ReadFails: "receive response_data (ReadFails # rest) = (Inl USBError, rest)"
  by (simp add: receive.simps [of response_data "ReadFails # rest"] ep_read_def)

lemma receive_Delivers:
  "receive response_data (Delivers raw # rest) =
     (if length raw < 12 then (Inl USBTransportError, rest)
      else if packet_type raw = DATA then
        (case read_more (packet_len raw) (drop 12 raw) rest of
           (Inl e, ep2) \<Rightarrow> (Inl e, ep2)
         | (Inr response_data', ep2) \<Rightarrow>
             receive (prefix_to response_data' (int (packet_len raw) - 12)) ep2)
      else if packet_type raw = RESPONSE then (Inr (packet_code raw, response_data), rest)
      else (Inl USBTransportError, rest))"
  by (simp add: receive.simps [of response_data "Delivers raw # rest"] ep_read_def
      unpack_IHHI_header)

lemma read_more_done:
  "pkt_len \<le> length response_data + 12 \<Longrightarrow>
   read_more pkt_len response_data ep = (Inr response_data, ep)"
  by (simp add: read_more.simps [of pkt_len response_data ep])

lemma read_more_Nil:
  "length response_data + 12 < pkt_len \<Longrightarrow>
   read_more pkt_len response_data [] = (Inl USBError, [])"
  by (simp add: read_more.simps [of pkt_len response_data "[]"] ep_read_def)

lemma read_more_ReadFails:
  "length response_data + 12 < pkt_len \<Longrightarrow>
   read_more pkt_len response_data (ReadFails # rest) = (Inl USBError, rest)"
  by (simp add: read_more.simps [of pkt_len response_data "ReadFails # rest"] ep_read_def)

lemma read_more_Delivers:
  "length response_data + 12 < pkt_len \<Longrightarrow>
   read_more pkt_len response_data (Delivers more' # rest) =
     read_more pkt_len (response_data @ more') rest"
  by (simp add: read_more.simps [of pkt_len response_data "Delivers more' # rest"] ep_read_def)

lemma read_more_result:
  "read_more pkt_len response_data ep = (Inr response_data', ep') \<Longrightarrow>
   pkt_len \<le> length response_data' + 12"
proof (induction pkt_len response_data ep rule: read_more.induct)
  case (1 pkt_len response_data ep)
  show ?case
  proof (cases "length response_data + 12 < pkt_len")
    case False
    with "1.prems" show ?thesis by (simp add: read_more_done)
  next
    case True
    show ?thesis
    proof (cases ep)
      case Nil
      with True "1.prems" show ?thesis by (simp add: read_more_Nil)
    next
      case (Cons r rest)
      show ?thesis
      proof (cases r)
        case ReadFails
        with True Cons "1.prems" show ?thesis by (simp add: read_more_ReadFails)
      next
        case (Delivers more')
        with True Cons "1.prems" "1.IH" show ?thesis
          by (simp add: read_more_Delivers ep_read_def)
      qed
    qed
  qed
qed

lemma read_more_chunks:
  "chunks \<noteq> [] \<Longrightarrow>
   length (response_data @ concat (butlast chunks)) + 12 < pkt_len \<Longrightarrow>
   pkt_len \<le> length (response_data @ concat chunks) + 12 \<Longrightarrow>
   read_more pkt_len response_data (map Delivers chunks @ rest) =
     (Inr (response_data @ concat chunks), rest)"
proof (induction chunks arbitrary: response_data)
  case Nil
  then show ?case by simp
next
  case (Cons c chunks)
  have less: "length response_data + 12 < pkt_len"
    using Cons.prems(2) by simp
  show ?case
  proof (cases "chunks = []")
    case True
    with Cons.prems less show ?thesis
      by (simp add: read_more_Delivers read_more_done)
  next
    case False
    with Cons.prems have "read_more pkt_len (response_data @ c) (map Delivers chunks @ rest) =
        (Inr ((response_data @ c) @ concat chunks), rest)"
      by (intro Cons.IH) simp_all
    with less show ?thesis by (simp add: read_more_Delivers)
  qed
qed

lemma length_le_bytes: "length (le_bytes n v) = n"
  by (induction n arbitrary: v) simp_all

lemma le_nat_le_bytes: "v < 256 ^ n \<Longrightarrow> le_nat (le_bytes n v) = v"
proof (induction n arbitrary: v)
  case 0
  then show ?case by simp
next
  case (Suc n)
  then have "v div 256 < 256 ^ n"
    by (simp add: less_mult_imp_div_less mult.commute)
  then have "le_nat (le_bytes n (v div 256)) = v div 256"
    by (rule Suc.IH)
  moreover have "unat (of_nat (v mod 256) :: byte) = v mod 256"
    by (simp add: unat_of_nat)
  ultimately show ?case by simp
qed

lemma pack_IHHI_fields:
  assumes "pack_IHHI a b c d = Inr header"
  shows "length header = 12" and "packet_len (header @ x) = a"
    and "packet_type (header @ x) = b" and "packet_code (header @ x) = c"
    and "packet_tid (header @ x) = d"
proof -
  from assms have h: "header = le_bytes 4 a @ le_bytes 2 b @ le_bytes 2 c @ le_bytes 4 d"
    and r: "a < 256 ^ 4" "b < 256 ^ 2" "c < 256 ^ 2" "d < 256 ^ 4"
    by (auto simp: pack_IHHI_def split: if_splits)
  show "length header = 12" by (simp add: h length_le_bytes)
  show "packet_len (header @ x) = a"
    using le_nat_le_bytes [OF r(1)] by (simp add: packet_len_def slice_def h length_le_bytes)
  show "packet_type (header @ x) = b"
    using le_nat_le_bytes [OF r(2)] by (simp add: packet_type_def slice_def h length_le_bytes)
  show "packet_code (header @ x) = c"
    using le_nat_le_bytes [OF r(3)] by (simp add: packet_code_def slice_def h length_le_bytes)
  show "packet_tid (header @ x) = d"
    using le_nat_le_bytes [OF r(4)] by (simp add: packet_tid_def slice_def h length_le_bytes)
qed

lemma four_eq: "(4::nat) = Suc (Suc (Suc (Suc 0)))"
  by simp

lemma le_bytes_4:
  "le_bytes 4 v = [of_nat (v mod 256), of_nat (v div 256 mod 256),
     of_nat (v div 256 div 256 mod 256), of_nat (v div 256 div 256 div 256 mod 256)]"
  unfolding four_eq by simp

lemma le_bytes_2: "le_bytes 2 v = [of_nat (v mod 256), of_nat (v div 256 mod 256)]"
  unfolding numeral_2_eq_2 by simp

lemma command_packet_fields:
  "command_packet operation_code tid params = Inr packet \<Longrightarrow>
   packet_type packet = COMMAND \<and> packet_tid packet = tid \<and> packet_code packet = operation_code"
proof -
  assume "command_packet operation_code tid params = Inr packet"
  then obtain param_data header where
    h: "pack_IHHI (12 + length param_data) COMMAND operation_code tid = Inr header"
    and p: "packet = header @ param_data"
    by (auto simp: command_packet_def split: sum.splits)
  show ?thesis
    using pack_IHHI_fields(3,4,5) [OF h, of param_data] by (simp add: p)
qed

lemma data_packet_fields:
  "data_packet operation_code tid d = Inr packet \<Longrightarrow>
   packet_type packet = DATA \<and> packet_tid packet = tid \<and> packet_code packet = operation_code"
proof -
  assume "data_packet operation_code tid d = Inr packet"
  then obtain header where
    h: "pack_IHHI (12 + length d) DATA operation_code tid = Inr header"
    and p: "packet = header @ d"
    by (auto simp: data_packet_def split: sum.splits)
  show ?thesis
    using pack_IHHI_fields(3,4,5) [OF h, of d] by (simp add: p)
qed

lemma write_packet_cases:
  "write_packet ep packet = (r, ep') \<Longrightarrow>
   (r = Inr () \<and> written ep' = written ep @ [packet]) \<or>
   (r = Inl USBTransportError \<and> written ep' = written ep)"
  by (auto simp: write_packet_def ep_write_def wrap_usb_error_def
      split: list.splits if_splits)

lemma send_data_cases:
  "send_data ep operation_code tid data = (r, ep') \<Longrightarrow>
   (data = None \<and> r = Inr () \<and> ep' = ep) \<or>
   (\<exists>d packet. data = Some d \<and> data_packet operation_code tid d = Inr packet \<and>
      r = Inr () \<and> written ep' = written ep @ [packet]) \<or>
   ((\<exists>e. r = Inl e) \<and> written ep' = written ep)"
proof (cases data)
  case None
  moreover assume "send_data ep operation_code tid data = (r, ep')"
  ultimately show ?thesis by (simp add: send_data_def)
next
  case (Some d)
  assume a: "send_data ep operation_code tid data = (r, ep')"
  show ?thesis
  proof (cases "data_packet operation_code tid d")
    case (Inl e)
    with a Some show ?thesis by (auto simp: send_data_def)
  next
    case (Inr packet)
    with a Some have "write_packet ep packet = (r, ep')"
      by (simp add: send_data_def)
    from write_packet_cases [OF this] Some Inr show ?thesis by auto
  qed
qed

lemma send_command_effect:
  fixes self :: USBTransport and operation_code :: nat
    and params :: "nat list option" and data :: "bytes option"
  assumes c: "connected self"
  defines "self' \<equiv> snd (send_command self operation_code params data)"
  shows "priv_transaction_id self' = priv_transaction_id self + 1"
    and "connected self'"
    and "\<exists>new. packets_written self' = packets_written self @ new \<and>
           list_all (\<lambda>p. packet_tid p = priv_transaction_id self) new \<and>
           (map packet_type new = [] \<or> map packet_type new = [COMMAND] \<or>
            map packet_type new = [COMMAND, DATA]) \<and>
           ((\<exists>r. fst (send_command self operation_code params data) = Inr r) \<longrightarrow>
              map packet_type new = (case data of None \<Rightarrow> [COMMAND] | Some d \<Rightarrow> [COMMAND, DATA]))"
proof -
  from c obtain out inp where ep: "out_ep self = Some out" "in_ep self = Some inp"
    by (auto simp: connected_def)
  let ?tid = "priv_transaction_id self"
  let ?ps = "case params of None \<Rightarrow> [] | Some ps \<Rightarrow> ps"
  let ?self1 = "self\<lparr>priv_transaction_id := Suc ?tid\<rparr>"
  have sc: "send_command self operation_code params data =
     (case command_packet operation_code ?tid ?ps of
        Inl e \<Rightarrow> (Inl e, ?self1)
      | Inr cmd_packet \<Rightarrow>
          (case write_packet out cmd_packet of
             (Inl e, out1) \<Rightarrow> (Inl e, ?self1\<lparr>out_ep := Some out1\<rparr>)
           | (Inr u, out1) \<Rightarrow>
               (case send_data out1 operation_code ?tid data of
                  (Inl e, out2) \<Rightarrow> (Inl e, ?self1\<lparr>out_ep := Some out2\<rparr>)
                | (Inr u, out2) \<Rightarrow>
                    (case receive_response inp of
                       (r, inp') \<Rightarrow> (r, ?self1\<lparr>out_ep := Some out2, in_ep := Some inp'\<rparr>)))))"
    by (simp add: send_command_def ep transaction_id_def Let_def)
  have pw: "packets_written self = written out"
    by (simp add: packets_written_def ep)
  show "priv_transaction_id self' = priv_transaction_id self + 1"
    by (simp add: self'_def sc split: sum.splits prod.splits)
  show "connected self'"
    by (simp add: self'_def sc connected_def ep split: sum.splits prod.splits)
  show "\<exists>new. packets_written self' = packets_written self @ new \<and>
           list_all (\<lambda>p. packet_tid p = priv_transaction_id self) new \<and>
           (map packet_type new = [] \<or> map packet_type new = [COMMAND] \<or>
            map packet_type new = [COMMAND, DATA]) \<and>
           ((\<exists>r. fst (send_command self operation_code params data) = Inr r) \<longrightarrow>
              map packet_type new = (case data of None \<Rightarrow> [COMMAND] | Some d \<Rightarrow> [COMMAND, DATA]))"
  proof (cases "command_packet operation_code ?tid ?ps")
    case (Inl e)
    then have "packets_written self' = packets_written self @ []"
      and "fst (send_command self operation_code params data) = Inl e"
      by (simp_all add: self'_def sc packets_written_def ep)
    then show ?thesis by (intro exI [of _ "[]"]) simp
  next
    case (Inr cmd)
    note cmd = command_packet_fields [OF Inr]
    obtain r1 out1 where w1: "write_packet out cmd = (r1, out1)"
      by (cases "write_packet out cmd")
    from write_packet_cases [OF w1] show ?thesis
    proof
      assume f: "r1 = Inl USBTransportError \<and> written out1 = written out"
      then have "packets_written self' = packets_written self @ []"
        and "fst (send_command self operation_code params data) = Inl USBTransportError"
        using Inr w1 by (simp_all add: self'_def sc packets_written_def ep)
      then show ?thesis by (intro exI [of _ "[]"]) simp
    next
      assume s1: "r1 = Inr () \<and> written out1 = written out @ [cmd]"
      obtain r2 out2 where w2: "send_data out1 operation_code ?tid data = (r2, out2)"
        by (cases "send_data out1 operation_code ?tid data")
      obtain r3 inp' where w3: "receive_response inp = (r3, inp')"
        by (cases "receive_response inp")
      have res: "self' = (case r2 of Inl e \<Rightarrow> ?self1\<lparr>out_ep := Some out2\<rparr>
                 | Inr u \<Rightarrow> ?self1\<lparr>out_ep := Some out2, in_ep := Some inp'\<rparr>)"
        and fstres: "fst (send_command self operation_code params data) =
                (case r2 of Inl e \<Rightarrow> Inl e | Inr u \<Rightarrow> r3)"
        using Inr w1 s1 w2 w3 by (simp_all add: self'_def sc split: sum.splits)
      then have pw': "packets_written self' = written out2"
        by (simp add: packets_written_def split: sum.splits)
      from send_data_cases [OF w2] consider
          (none) "data = None" "r2 = Inr ()" "out2 = out1"
        | (some) d packet where "data = Some d" "data_packet operation_code ?tid d = Inr packet"
            "r2 = Inr ()" "written out2 = written out1 @ [packet]"
        | (fail) e where "r2 = Inl e" "written out2 = written out1"
        by blast
      then show ?thesis
      proof cases
        case none
        with s1 pw pw' cmd show ?thesis
          by (intro exI [of _ "[cmd]"]) simp
      next
        case some
        with s1 pw pw' cmd data_packet_fields [OF some(2)] show ?thesis
          by (intro exI [of _ "[cmd, packet]"]) simp
      next
        case fail
        with s1 pw pw' cmd fstres show ?thesis
          by (intro exI [of _ "[cmd]"]) simp
      qed
    qed
  qed
qed

lemma prefix_to_take: "12 \<le> pkt_len \<Longrightarrow> prefix_to xs (int pkt_len - 12) = take (pkt_len - 12) xs"
  by (simp add: prefix_to_def nat_diff_distrib')

lemma length_take_declared:
  "n \<le> length xs + 12 \<Longrightarrow> length (take (n - 12) xs) = n - 12"
  by simp

lemma read_more_reassembles:
  "reassembles pkt_len first_chunk chunks \<Longrightarrow>
   read_more pkt_len first_chunk (map Delivers chunks @ rest) =
     (Inr (first_chunk @ concat chunks), rest)"
proof (cases "chunks = []")
  case True
  moreover assume "reassembles pkt_len first_chunk chunks"
  ultimately show ?thesis
    by (simp add: reassembles_def read_more_done)
next
  case False
  moreover assume "reassembles pkt_len first_chunk chunks"
  ultimately show ?thesis
    using read_more_chunks [of chunks first_chunk pkt_len rest]
    by (simp add: reassembles_def)
qed

lemma send_command_receives:
  assumes "out_ep self = Some out" and "in_ep self = Some inp" and "write_faults out = []"
    and "operation_code < 2 ^ 16" and "priv_transaction_id self < 2 ^ 32"
  shows "fst (send_command self operation_code None None) =
     (case fst (receive [] inp) of Inl e \<Rightarrow> Inl (wrap_usb_error e) | Inr r \<Rightarrow> Inr r)"
  using assms
  by (simp add: send_command_def transaction_id_def command_packet_def pack_IHHI_def
      COMMAND_def write_packet_def ep_write_def send_data_def receive_response_def
      split: prod.splits sum.splits)

section \<open>The example transport: evaluation\<close>

lemma example_open_packet: "command_packet OPEN_SESSION 7 [1] = Inr [16,0,0,0, 1,0, 0x02,0x10, 7,0,0,0, 1,0,0,0]"
  by (simp add: command_packet_def pack_I_def pack_IHHI_def le_bytes_4 le_bytes_2
      OPEN_SESSION_def COMMAND_def)

lemma example_open_response: "receive_response [Delivers [12,0,0,0, 3,0, 0x01,0x20, 7,0,0,0], Delivers x] =
   (Inr (OK, []), [Delivers x])"
  by (simp add: receive_response_def receive_Delivers packet_type_def packet_code_def
      slice_def DATA_def RESPONSE_def OK_def)

lemma example_open_command: "send_command example_transport OPEN_SESSION (Some [1]) None =
   (Inr (OK, []),
    \<lparr>out_ep = Some \<lparr>written = [[16,0,0,0, 1,0, 0x02,0x10, 7,0,0,0, 1,0,0,0]], write_faults = []\<rparr>,
      in_ep = Some [Delivers [12,0,0,0, 3,0, 0x01,0x20, 0,0,0,0]],
      priv_transaction_id = 8\<rparr>)"
  by (simp add: send_command_def example_transport_def transaction_id_def example_open_packet [unfolded One_nat_def] example_open_response
      write_packet_def ep_write_def send_data_def)


lemma example_open_session: "open_session example_transport =
   (Inr (),
    \<lparr>out_ep = Some \<lparr>written = [[16,0,0,0, 1,0, 0x02,0x10, 7,0,0,0, 1,0,0,0]], write_faults = []\<rparr>,
      in_ep = Some [Delivers [12,0,0,0, 3,0, 0x01,0x20, 0,0,0,0]],
      priv_transaction_id = 0\<rparr>)"
  by (simp add: open_session_def example_open_command [unfolded One_nat_def] reset_transaction_id_def)

lemma example_event_packet: "command_packet GET_EVENT 0 [] = Inr [12,0,0,0, 1,0, 0x16,0x91, 0,0,0,0]"
  by (simp add: command_packet_def pack_IHHI_def le_bytes_4 le_bytes_2
      GET_EVENT_def COMMAND_def)

lemma example_event_data_packet: "data_packet GET_EVENT 0 [0xAA] = Inr [13,0,0,0, 2,0, 0x16,0x91, 0,0,0,0, 0xAA]"
  by (simp add: data_packet_def pack_IHHI_def le_bytes_4 le_bytes_2
      GET_EVENT_def DATA_def)

lemma example_event_response: "receive_response [Delivers [12,0,0,0, 3,0, 0x01,0x20, 0,0,0,0]] = (Inr (OK, []), [])"
  by (simp add: receive_response_def receive_Delivers packet_type_def packet_code_def
      slice_def DATA_def RESPONSE_def OK_def)

lemma example_event_command: "send_command
    \<lparr>out_ep = Some \<lparr>written = [[16,0,0,0, 1,0, 0x02,0x10, 7,0,0,0, 1,0,0,0]], write_faults = []\<rparr>,
      in_ep = Some [Delivers [12,0,0,0, 3,0, 0x01,0x20, 0,0,0,0]],
      priv_transaction_id = 0\<rparr> GET_EVENT None (Some [0xAA]) =
   (Inr (OK, []),
    \<lparr>out_ep = Some \<lparr>written = [[16,0,0,0, 1,0, 0x02,0x10, 7,0,0,0, 1,0,0,0],
         [12,0,0,0, 1,0, 0x16,0x91, 0,0,0,0], [13,0,0,0, 2,0, 0x16,0x91, 0,0,0,0, 0xAA]], write_faults = []\<rparr>,
      in_ep = Some [],
      priv_transaction_id = 1\<rparr>)"
  by (simp add: send_command_def transaction_id_def example_event_packet example_event_data_packet example_event_response
      write_packet_def ep_write_def send_data_def)

lemma example_close_packet: "command_packet CLOSE_SESSION 7 [] = Inr [12,0,0,0, 1,0, 0x03,0x10, 7,0,0,0]"
  by (simp add: command_packet_def pack_IHHI_def le_bytes_4 le_bytes_2
      CLOSE_SESSION_def COMMAND_def)

lemma example_close_disconnected: "send_command (example_transport\<lparr>in_ep := None\<rparr>) CLOSE_SESSION None None =
   (Inl USBTransportError, example_transport\<lparr>in_ep := None\<rparr>)"
  by (simp add: send_command_def example_transport_def)

lemma example_close_read_fails: "fst (send_command (example_transport\<lparr>in_ep := Some [ReadFails]\<rparr>) CLOSE_SESSION None None) =
   Inl USBTransportError"
  by (simp add: send_command_def example_transport_def transaction_id_def example_close_packet
      write_packet_def ep_write_def send_data_def receive_response_def receive_ReadFails
      wrap_usb_error_def)

lemma example_close_busy: "fst (send_command (example_transport\<lparr>in_ep := Some [Delivers [12,0,0,0, 3,0, 0x19,0x20, 7,0,0,0]]\<rparr>)
     CLOSE_SESSION None None) = Inr (0x2019, [])"
  by (simp add: send_command_def example_transport_def transaction_id_def example_close_packet
      write_packet_def ep_write_def send_data_def receive_response_def receive_Delivers
      packet_type_def packet_code_def slice_def DATA_def RESPONSE_def)

lemma example_get_event_packet: "command_packet GET_EVENT 7 [] = Inr [12,0,0,0, 1,0, 0x16,0x91, 7,0,0,0]"
  by (simp add: command_packet_def pack_IHHI_def le_bytes_4 le_bytes_2
      GET_EVENT_def COMMAND_def)

lemma example_get_event_command: "send_command (example_transport\<lparr>in_ep := Some inp\<rparr>) GET_EVENT None None =
   (case receive_response inp of
      (r, inp') \<Rightarrow>
        (r, \<lparr>out_ep = Some \<lparr>written = [[12,0,0,0, 1,0, 0x16,0x91, 7,0,0,0]], write_faults = []\<rparr>,
              in_ep = Some inp', priv_transaction_id = 8\<rparr>))"
  by (simp add: send_command_def example_transport_def transaction_id_def example_get_event_packet
      write_packet_def ep_write_def send_data_def)

lemma example_two_data: "receive []
     [Delivers [14,0,0,0, 2,0, 0x16,0x91, 7,0,0,0, 0xAA,0xBB],
      Delivers [13,0,0,0, 2,0, 0x16,0x91, 7,0,0,0, 0xCC],
      Delivers [12,0,0,0, 3,0, 0x01,0x20, 7,0,0,0]] = (Inr (OK, [0xCC]), [])"
  by (simp add: receive_Delivers read_more_done packet_type_def packet_code_def
      packet_len_def slice_def prefix_to_def DATA_def RESPONSE_def OK_def)

lemma example_two_data_second: "receive []
     [Delivers [16,0,0,0, 2,0, 0x16,0x91, 7,0,0,0, 1,2,3,4],
      Delivers [13,0,0,0, 2,0, 0x16,0x91, 7,0,0,0, 9],
      Delivers [12,0,0,0, 3,0, 0x01,0x20, 7,0,0,0]] = (Inr (OK, [9]), [])"
  by (simp add: receive_Delivers read_more_done packet_type_def packet_code_def
      packet_len_def slice_def prefix_to_def DATA_def RESPONSE_def OK_def)

lemma example_event_step_0: "parse_step example_event_buffer 0 =
   Inr (Advance (Some \<lparr>property_code = 0xD167,
      property_value = BytesValue [0,0,0,0, 0,0,0,0, 0xF0,0x49,0x02,0, 0xF0,0x49,0x02,0]\<rparr>) 28)"
  by (simp add: example_event_buffer_def parse_step_unfold decode_record_unfold
      record_len_at_def event_code_at_def record_data_at_def slice_def PROP_VALUE_CHANGED_def)

lemma example_event_step_28: "parse_step example_event_buffer 28 = Inr Halt"
  by (simp add: example_event_buffer_def parse_step_unfold
      record_len_at_def event_code_at_def slice_def)

lemma example_event_parsed: "parse_event_data example_event_buffer =
   Inr [\<lparr>property_code = 0xD167,
      property_value = BytesValue [0,0,0,0, 0,0,0,0, 0xF0,0x49,0x02,0, 0xF0,0x49,0x02,0]\<rparr>]"
  by (simp add: parse_event_data_def parse_event_data_from.simps [of _ 0]
      parse_event_data_from.simps [of _ 28] example_event_step_0 example_event_step_28)

lemma example_event_received: "receive []
     [Delivers ([48,0,0,0, 2,0, 0x16,0x91, 7,0,0,0] @ example_event_buffer),
      Delivers [12,0,0,0, 3,0, 0x01,0x20, 7,0,0,0]] = (Inr (OK, example_event_buffer), [])"
  by (simp add: example_event_buffer_def receive_Delivers read_more_done packet_type_def
      packet_code_def packet_len_def slice_def prefix_to_def DATA_def RESPONSE_def OK_def)

lemma example_get_event: "get_event (example_transport\<lparr>in_ep := Some
     [Delivers ([48,0,0,0, 2,0, 0x16,0x91, 7,0,0,0] @ example_event_buffer),
      Delivers [12,0,0,0, 3,0, 0x01,0x20, 7,0,0,0]]\<rparr>) =
   (Inr [\<lparr>property_code = 0xD167,
      property_value = BytesValue [0,0,0,0, 0,0,0,0, 0xF0,0x49,0x02,0, 0xF0,0x49,0x02,0]\<rparr>],
    \<lparr>out_ep = Some \<lparr>written = [[12,0,0,0, 1,0, 0x16,0x91, 7,0,0,0]], write_faults = []\<rparr>,
      in_ep = Some [], priv_transaction_id = 8\<rparr>)"
  by (simp add: get_event_def example_get_event_command receive_response_def example_event_received [simplified] example_event_parsed)

text \<open>
  A Data container that declares a length below 12: the trim
  \<open>response_data[: pkt_len - 12]\<close> has a negative stop, and of the 20 bytes
  that follow the header the first 12 are returned.
\<close>

lemma example_short_declared_length:
  "receive []
     [Delivers [4,0,0,0, 2,0, 0x16,0x91, 7,0,0,0,
                1,2,3,4,5,6,7,8,9,10,11,12,13,14,15,16,17,18,19,20],
      Delivers [12,0,0,0, 3,0, 0x01,0x20, 7,0,0,0]] =
   (Inr (OK, [1,2,3,4,5,6,7,8,9,10,11,12]), [])"
  by (simp add: receive_Delivers read_more_done packet_type_def packet_code_def
      packet_len_def slice_def prefix_to_def DATA_def RESPONSE_def OK_def)

section \<open>Event-record parsing: the claims\<close>

text \<open>
  Claim C3. At every offset of every buffer, a turn of the parsing loop of
  \<open>get_event\<close> ends the loop exactly when the 4-byte record length \<open>L\<close> is 0, or
  the 4-byte event code is 0, or fewer than 8 bytes remain at the offset, and the
  parse from a halting offset yields no further event. A record that does not end
  the loop and whose event code is not the property-value-changed code \<open>0xC189\<close>
  yields no event and moves the offset on by exactly \<open>L\<close>: the parse from the
  offset is the parse from \<open>offset + L\<close>.
\<close>

theorem parse_step_halts_and_skips:
  "(parse_step data offset = Inr Halt \<longleftrightarrow>
      record_len_at data offset = 0 \<or> event_code_at data offset = 0 \<or>
      length data < offset + 8) \<and>
   (parse_step data offset = Inr Halt \<longrightarrow> parse_event_data_from data offset = Inr []) \<and>
   (parse_step data offset \<noteq> Inr Halt \<and> event_code_at data offset \<noteq> PROP_VALUE_CHANGED \<longrightarrow>
      parse_step data offset = Inr (Advance None (offset + record_len_at data offset)) \<and>
      parse_event_data_from data offset =
        parse_event_data_from data (offset + record_len_at data offset))"
proof -
  have "parse_step data offset = Inr Halt \<longleftrightarrow>
      record_len_at data offset = 0 \<or> event_code_at data offset = 0 \<or>
      length data < offset + 8"
    using decode_record_no_error [of "record_data_at data offset"]
    by (auto simp: parse_step_unfold)
  moreover have "parse_step data offset = Inr Halt \<longrightarrow>
      parse_event_data_from data offset = Inr []"
    by (simp add: parse_event_data_from.simps [of data offset])
  moreover have "parse_step data offset \<noteq> Inr Halt \<and>
      event_code_at data offset \<noteq> PROP_VALUE_CHANGED \<longrightarrow>
      parse_step data offset = Inr (Advance None (offset + record_len_at data offset))"
    by (auto simp: parse_step_unfold split: if_splits)
  moreover have "parse_step data offset =
        Inr (Advance None (offset + record_len_at data offset)) \<longrightarrow>
      parse_event_data_from data offset =
        parse_event_data_from data (offset + record_len_at data offset)"
    by (auto simp: parse_event_data_from.simps [of data offset] split: sum.splits)
  ultimately show ?thesis by blast
qed

text \<open>
  A record of 10 bytes with the event code 1, followed by a terminator: the first
  turn skips the record, the second one halts on the zero length.
\<close>

theorem parse_step_halts_and_skips_witness:
  "parse_step [10,0,0,0, 1,0,0,0, 7,7, 0,0,0,0, 0,0,0,0] 0 = Inr (Advance None 10) \<and>
   parse_event_data_from [10,0,0,0, 1,0,0,0, 7,7, 0,0,0,0, 0,0,0,0] 0 =
     parse_event_data_from [10,0,0,0, 1,0,0,0, 7,7, 0,0,0,0, 0,0,0,0] 10 \<and>
   parse_step [10,0,0,0, 1,0,0,0, 7,7, 0,0,0,0, 0,0,0,0] 10 = Inr Halt \<and>
   parse_event_data_from [10,0,0,0, 1,0,0,0, 7,7, 0,0,0,0, 0,0,0,0] 10 = Inr []"
  using parse_step_halts_and_skips [of "[10,0,0,0, 1,0,0,0, 7,7, 0,0,0,0, 0,0,0,0]" 0]
    parse_step_halts_and_skips [of "[10,0,0,0, 1,0,0,0, 7,7, 0,0,0,0, 0,0,0,0]" 10]
  by (simp add: record_len_at_def event_code_at_def slice_def PROP_VALUE_CHANGED_def)

text \<open>
  Claim C4. For a property-value-changed record (event code \<open>0xC189\<close>) that does
  not end the loop, let the value payload be the record data after the 4-byte
  property code. If the payload is exactly 4 bytes long, the record yields an event
  that carries the integer variant, equal to the little-endian u32 of those bytes
  (so not the bytes variant); if it is non-empty with any other length, the event
  carries the payload as raw bytes. In both cases the event is in the result of
  the parse: it comes first in what the parse from this record returns, before
  the events of the records that follow. If the payload is empty, the record
  yields no event: the parse from this record returns what the parse from the
  next one does.
\<close>

theorem property_value_variant:
  "offset + 8 \<le> length data \<and> record_len_at data offset \<noteq> 0 \<and>
   event_code_at data offset = PROP_VALUE_CHANGED \<longrightarrow>
     (length (drop 4 (record_data_at data offset)) = 4 \<longrightarrow>
        parse_step data offset =
          Inr (Advance
            (Some \<lparr>property_code = le_nat (take 4 (record_data_at data offset)),
                   property_value = IntValue (le_nat (drop 4 (record_data_at data offset)))\<rparr>)
            (offset + record_len_at data offset)) \<and>
        (\<exists>events. parse_event_data_from data (offset + record_len_at data offset) = Inr events \<and>
           parse_event_data_from data offset =
             Inr (\<lparr>property_code = le_nat (take 4 (record_data_at data offset)),
                   property_value = IntValue (le_nat (drop 4 (record_data_at data offset)))\<rparr>
                  # events))) \<and>
     (drop 4 (record_data_at data offset) \<noteq> [] \<and>
      length (drop 4 (record_data_at data offset)) \<noteq> 4 \<longrightarrow>
        parse_step data offset =
          Inr (Advance
            (Some \<lparr>property_code = le_nat (take 4 (record_data_at data offset)),
                   property_value = BytesValue (drop 4 (record_data_at data offset))\<rparr>)
            (offset + record_len_at data offset)) \<and>
        (\<exists>events. parse_event_data_from data (offset + record_len_at data offset) = Inr events \<and>
           parse_event_data_from data offset =
             Inr (\<lparr>property_code = le_nat (take 4 (record_data_at data offset)),
                   property_value = BytesValue (drop 4 (record_data_at data offset))\<rparr>
                  # events))) \<and>
     (drop 4 (record_data_at data offset) = [] \<longrightarrow>
        parse_step data offset = Inr (Advance None (offset + record_len_at data offset)) \<and>
        parse_event_data_from data offset =
          parse_event_data_from data (offset + record_len_at data offset))"
proof (intro impI, elim conjE)
  assume h: "offset + 8 \<le> length data" "record_len_at data offset \<noteq> 0"
    "event_code_at data offset = PROP_VALUE_CHANGED"
  let ?rd = "record_data_at data offset"
  let ?next = "offset + record_len_at data offset"
  have a: "length (drop 4 ?rd) = 4 \<longrightarrow>
      parse_step data offset =
        Inr (Advance (Some \<lparr>property_code = le_nat (take 4 ?rd),
               property_value = IntValue (le_nat (drop 4 ?rd))\<rparr>) ?next)"
    using h by (auto simp: parse_step_unfold decode_record_unfold PROP_VALUE_CHANGED_def)
  have b: "drop 4 ?rd \<noteq> [] \<and> length (drop 4 ?rd) \<noteq> 4 \<longrightarrow>
      parse_step data offset =
        Inr (Advance (Some \<lparr>property_code = le_nat (take 4 ?rd),
               property_value = BytesValue (drop 4 ?rd)\<rparr>) ?next)"
    using h by (auto simp: parse_step_unfold decode_record_unfold PROP_VALUE_CHANGED_def)
  have c: "drop 4 ?rd = [] \<longrightarrow> parse_step data offset = Inr (Advance None ?next)"
    using h by (auto simp: parse_step_unfold decode_record_unfold PROP_VALUE_CHANGED_def)
  show "(length (drop 4 ?rd) = 4 \<longrightarrow>
        parse_step data offset =
          Inr (Advance (Some \<lparr>property_code = le_nat (take 4 ?rd),
                 property_value = IntValue (le_nat (drop 4 ?rd))\<rparr>) ?next) \<and>
        (\<exists>events. parse_event_data_from data ?next = Inr events \<and>
           parse_event_data_from data offset =
             Inr (\<lparr>property_code = le_nat (take 4 ?rd),
                   property_value = IntValue (le_nat (drop 4 ?rd))\<rparr> # events))) \<and>
     (drop 4 ?rd \<noteq> [] \<and> length (drop 4 ?rd) \<noteq> 4 \<longrightarrow>
        parse_step data offset =
          Inr (Advance (Some \<lparr>property_code = le_nat (take 4 ?rd),
                 property_value = BytesValue (drop 4 ?rd)\<rparr>) ?next) \<and>
        (\<exists>events. parse_event_data_from data ?next = Inr events \<and>
           parse_event_data_from data offset =
             Inr (\<lparr>property_code = le_nat (take 4 ?rd),
                   property_value = BytesValue (drop 4 ?rd)\<rparr> # events))) \<and>
     (drop 4 ?rd = [] \<longrightarrow>
        parse_step data offset = Inr (Advance None ?next) \<and>
        parse_event_data_from data offset = parse_event_data_from data ?next)"
  proof (intro conjI impI)
    assume p: "length (drop 4 ?rd) = 4"
    with a show "parse_step data offset =
          Inr (Advance (Some \<lparr>property_code = le_nat (take 4 ?rd),
                 property_value = IntValue (le_nat (drop 4 ?rd))\<rparr>) ?next)"
      by simp
    from parse_event_data_from_Advance [OF this]
    show "\<exists>events. parse_event_data_from data ?next = Inr events \<and>
           parse_event_data_from data offset =
             Inr (\<lparr>property_code = le_nat (take 4 ?rd),
                   property_value = IntValue (le_nat (drop 4 ?rd))\<rparr> # events)"
      by simp
  next
    assume p: "drop 4 ?rd \<noteq> [] \<and> length (drop 4 ?rd) \<noteq> 4"
    with b show "parse_step data offset =
          Inr (Advance (Some \<lparr>property_code = le_nat (take 4 ?rd),
                 property_value = BytesValue (drop 4 ?rd)\<rparr>) ?next)"
      by simp
    from parse_event_data_from_Advance [OF this]
    show "\<exists>events. parse_event_data_from data ?next = Inr events \<and>
           parse_event_data_from data offset =
             Inr (\<lparr>property_code = le_nat (take 4 ?rd),
                   property_value = BytesValue (drop 4 ?rd)\<rparr> # events)"
      by simp
  next
    assume p: "drop 4 ?rd = []"
    with c show s: "parse_step data offset = Inr (Advance None ?next)"
      by simp
    from parse_event_data_from_Advance [OF s]
    show "parse_event_data_from data offset = parse_event_data_from data ?next"
      by auto
  qed
qed

text \<open>
  Buffers of one record with a payload of 4 bytes, of 2 bytes and of no byte: the
  whole parse returns the integer event, the bytes event, and no event.
\<close>

theorem property_value_variant_witness:
  "parse_step [16,0,0,0, 0x89,0xC1,0,0, 0x67,0xD1,0,0, 1,2,0,0] 0 =
     Inr (Advance (Some \<lparr>property_code = 0xD167, property_value = IntValue 513\<rparr>) 16) \<and>
   parse_event_data [16,0,0,0, 0x89,0xC1,0,0, 0x67,0xD1,0,0, 1,2,0,0] =
     Inr [\<lparr>property_code = 0xD167, property_value = IntValue 513\<rparr>] \<and>
   parse_step [14,0,0,0, 0x89,0xC1,0,0, 0x67,0xD1,0,0, 1,2] 0 =
     Inr (Advance (Some \<lparr>property_code = 0xD167, property_value = BytesValue [1,2]\<rparr>) 14) \<and>
   parse_event_data [14,0,0,0, 0x89,0xC1,0,0, 0x67,0xD1,0,0, 1,2] =
     Inr [\<lparr>property_code = 0xD167, property_value = BytesValue [1,2]\<rparr>] \<and>
   parse_step [12,0,0,0, 0x89,0xC1,0,0, 0x67,0xD1,0,0] 0 = Inr (Advance None 12) \<and>
   parse_event_data [12,0,0,0, 0x89,0xC1,0,0, 0x67,0xD1,0,0] = Inr []"
  using property_value_variant [of 0 "[16,0,0,0, 0x89,0xC1,0,0, 0x67,0xD1,0,0, 1,2,0,0]"]
    property_value_variant [of 0 "[14,0,0,0, 0x89,0xC1,0,0, 0x67,0xD1,0,0, 1,2]"]
    property_value_variant [of 0 "[12,0,0,0, 0x89,0xC1,0,0, 0x67,0xD1,0,0]"]
    parse_event_data_from_end [of "[16,0,0,0, 0x89,0xC1,0,0, 0x67,0xD1,0,0, 1,2,0,0]" 16]
    parse_event_data_from_end [of "[14,0,0,0, 0x89,0xC1,0,0, 0x67,0xD1,0,0, 1,2]" 14]
    parse_event_data_from_end [of "[12,0,0,0, 0x89,0xC1,0,0, 0x67,0xD1,0,0]" 12]
  by (simp add: record_len_at_def event_code_at_def record_data_at_def slice_def
      PROP_VALUE_CHANGED_def parse_event_data_def)

text \<open>
  Claim C10. Event-record parsing terminates on every buffer (the recursion of
  \<open>parse_event_data_from\<close> is well-founded) and raises nothing: no unpacking ever
  asks for bytes beyond the end of the buffer. The data of a record whose declared
  length \<open>L\<close> exceeds the bytes that remain is the truncated slice of what the
  buffer holds. A property-value-changed record with fewer than 4 bytes of record
  data yields no event. Every turn that does not end the loop has \<open>L \<ge> 1\<close> and a
  strictly greater offset, so the distance to the end of the buffer decreases.
\<close>

theorem parse_event_data_total:
  "(\<exists>events. parse_event_data data = Inr events) \<and>
   (\<exists>st. parse_step data offset = Inr st) \<and>
   length (record_data_at data offset) \<le> length data - (offset + 8) \<and>
   record_data_at data offset =
     take (record_len_at data offset - 8) (drop (offset + 8) data) \<and>
   (parse_step data offset \<noteq> Inr Halt \<and> event_code_at data offset = PROP_VALUE_CHANGED \<and>
    length (record_data_at data offset) < 4 \<longrightarrow>
      parse_step data offset = Inr (Advance None (offset + record_len_at data offset))) \<and>
   (\<forall>ev offset'. parse_step data offset = Inr (Advance ev offset') \<longrightarrow>
      1 \<le> record_len_at data offset \<and> offset' = offset + record_len_at data offset \<and>
      offset < offset' \<and> length data - offset' < length data - offset)"
proof -
  have a: "\<exists>events. parse_event_data data = Inr events"
    by (simp add: parse_event_data_def parse_event_data_from_no_error)
  have b: "parse_step data offset \<noteq> Inr Halt \<and>
      event_code_at data offset = PROP_VALUE_CHANGED \<and>
      length (record_data_at data offset) < 4 \<longrightarrow>
      parse_step data offset = Inr (Advance None (offset + record_len_at data offset))"
    by (auto simp: parse_step_unfold decode_record_unfold split: if_splits)
  have c: "\<forall>ev offset'. parse_step data offset = Inr (Advance ev offset') \<longrightarrow>
      1 \<le> record_len_at data offset \<and> offset' = offset + record_len_at data offset \<and>
      offset < offset' \<and> length data - offset' < length data - offset"
    by (auto simp: parse_step_unfold split: if_splits sum.splits)
  show ?thesis
    using a b c parse_step_no_error [of data offset] record_data_at_length [of data offset]
      record_data_at_eq [of data offset]
    by blast
qed

text \<open>
  A property-value-changed record that declares 200 bytes in a buffer of 10: its
  data is the 2 bytes that the buffer holds, no event comes of it, and the parse
  ends with no event at all.
\<close>

theorem parse_event_data_total_witness: 
  "parse_step [200,0,0,0, 0x89,0xC1,0,0, 5,6] 0 = Inr (Advance None 200) \<and>
   record_data_at [200,0,0,0, 0x89,0xC1,0,0, 5,6] 0 = [5,6] \<and>
   parse_event_data [200,0,0,0, 0x89,0xC1,0,0, 5,6] = Inr []"
proof -
  have a0: "record_len_at [200,0,0,0, 0x89,0xC1,0,0, 5,6] 0 = 200 \<and>
      event_code_at [200,0,0,0, 0x89,0xC1,0,0, 5,6] 0 = PROP_VALUE_CHANGED \<and>
      record_data_at [200,0,0,0, 0x89,0xC1,0,0, 5,6] 0 = [5,6]"
    by (simp add: record_len_at_def event_code_at_def record_data_at_def slice_def
        PROP_VALUE_CHANGED_def)
  have a1: "parse_step [200,0,0,0, 0x89,0xC1,0,0, 5,6] 0 \<noteq> Inr Halt"
    using parse_step_halts_skips_aux [of "[200,0,0,0, 0x89,0xC1,0,0, 5,6]" 0]
    by (simp add: record_len_at_def event_code_at_def slice_def)
  have "parse_step [200,0,0,0, 0x89,0xC1,0,0, 5,6] 0 \<noteq> Inr Halt \<and>
      event_code_at [200,0,0,0, 0x89,0xC1,0,0, 5,6] 0 = PROP_VALUE_CHANGED \<and>
      length (record_data_at [200,0,0,0, 0x89,0xC1,0,0, 5,6] 0) < 4 \<longrightarrow>
      parse_step [200,0,0,0, 0x89,0xC1,0,0, 5,6] 0 =
        Inr (Advance None (0 + record_len_at [200,0,0,0, 0x89,0xC1,0,0, 5,6] 0))"
    using parse_event_data_total [of "[200,0,0,0, 0x89,0xC1,0,0, 5,6]" 0] by blast
  with a0 a1 have a2: "parse_step [200,0,0,0, 0x89,0xC1,0,0, 5,6] 0 = Inr (Advance None 200)"
    by simp
  have a3: "parse_step [200,0,0,0, 0x89,0xC1,0,0, 5,6] 200 = Inr Halt"
    by (simp add: parse_step_unfold)
  have "parse_event_data [200,0,0,0, 0x89,0xC1,0,0, 5,6] = Inr []"
    using a2 a3
    by (simp add: parse_event_data_def parse_event_data_from.simps [of _ 0]
        parse_event_data_from.simps [of _ 200])
  with a0 a2 show ?thesis by simp
qed

section \<open>Protocol strings and device info: the claims\<close>

text \<open>
  Claim C5, amended. For every buffer and offset inside it, with \<open>C\<close> the count
  byte at the offset: if \<open>C = 0\<close>, the decode returns the empty string and the
  offset advanced by 1. If \<open>C > 0\<close> and the \<open>C * 2\<close> bytes are there, it returns the
  UTF-16LE decoding of the first \<open>(C - 1) * 2\<close> of them (the 2-byte terminator is
  dropped and not looked at) and the offset advanced by \<open>1 + C * 2\<close>; if those
  first \<open>(C - 1) * 2\<close> bytes are not valid UTF-16, it returns the empty string and
  still advances the offset by \<open>1 + C * 2\<close>. If \<open>C * 2\<close> exceeds what remains, it
  returns the empty string (the offset advanced by 1, past the count byte only).
  An offset at or beyond the end of the buffer is returned unchanged with the
  empty string, and no returned offset lies beyond the end of the buffer.
\<close>

theorem read_ptp_string_cases:
  "(length data \<le> offset \<longrightarrow> read_ptp_string data offset = ([], offset)) \<and>
   (offset < length data \<and> count_at data offset = 0 \<longrightarrow>
      read_ptp_string data offset = ([], offset + 1)) \<and>
   (offset < length data \<and> 0 < count_at data offset \<and>
    offset + 1 + count_at data offset * 2 \<le> length data \<longrightarrow>
      (\<forall>s. decode_utf_16_le (string_bytes_at data offset) = Some s \<longrightarrow>
         read_ptp_string data offset = (s, offset + 1 + count_at data offset * 2)) \<and>
      (decode_utf_16_le (string_bytes_at data offset) = None \<longrightarrow>
         read_ptp_string data offset = ([], offset + 1 + count_at data offset * 2))) \<and>
   (offset < length data \<and> length data < offset + 1 + count_at data offset * 2 \<longrightarrow>
      read_ptp_string data offset = ([], offset + 1)) \<and>
   (offset \<le> length data \<longrightarrow> snd (read_ptp_string data offset) \<le> length data)"
  by (auto simp: read_ptp_string_unfold)

text \<open>
  The five cases: a zero count; the count 3 with the units of \<open>AB\<close> and the
  terminator (7 bytes further); a lone low surrogate; a count that asks for more
  than the buffer holds; an offset at the end.
\<close>

theorem read_ptp_string_cases_witness:
  "read_ptp_string [9, 0, 9] 1 = ([], 2) \<and>
   read_ptp_string [9, 3, 0x41, 0, 0x42, 0, 0, 0, 9] 1 = ([0x41, 0x42], 8) \<and>
   read_ptp_string [2, 0, 0xDC, 0, 0] 0 = ([], 5) \<and>
   read_ptp_string [3, 0x41, 0, 0x42, 0] 0 = ([], 1) \<and>
   read_ptp_string [3, 0x41, 0] 3 = ([], 3)"
  using read_ptp_string_cases [of "[9, 0, 9]" 1]
    read_ptp_string_cases [of "[9, 3, 0x41, 0, 0x42, 0, 0, 0, 9]" 1]
    read_ptp_string_cases [of "[2, 0, 0xDC, 0, 0]" 0]
    read_ptp_string_cases [of "[3, 0x41, 0, 0x42, 0]" 0]
    read_ptp_string_cases [of "[3, 0x41, 0]" 3]
  by (simp add: count_at_def string_bytes_at_def slice_def)

text \<open>
  The claim as it was stated makes the result empty whenever the \<open>C * 2\<close> bytes
  are not valid UTF-16. With the count 2, the unit of \<open>A\<close> and a lone high
  surrogate where the terminator should be, the \<open>C * 2\<close> bytes are not valid
  UTF-16, and the decode returns \<open>A\<close>: the terminator is never decoded.
\<close>

theorem read_ptp_string_terminator_counterexample:
  "count_at [2, 0x41, 0, 0, 0xD8] 0 = 2 \<and>
   0 + 1 + count_at [2, 0x41, 0, 0, 0xD8] 0 * 2 \<le> length [2, 0x41, 0, 0, 0xD8 :: byte] \<and>
   decode_utf_16_le (all_bytes_at [2, 0x41, 0, 0, 0xD8] 0) = None \<and>
   read_ptp_string [2, 0x41, 0, 0, 0xD8] 0 = ([0x41], 5) \<and>
   read_ptp_string [2, 0x41, 0, 0, 0xD8] 0 \<noteq> ([], 0 + 1 + count_at [2, 0x41, 0, 0, 0xD8] 0 * 2)"
  by (simp add: count_at_def all_bytes_at_def read_ptp_string_def slice_def)

text \<open>
  Claim C6. Device-info decoding moves an offset through the buffer in this order:
  8 bytes are skipped, one protocol string is read and discarded, 2 bytes are
  skipped, five arrays are skipped (each a u32 count \<open>N\<close> and \<open>N\<close> 16-bit
  elements; with fewer than 4 bytes remaining the offset stays), and three
  protocol strings are read, which are the manufacturer, the model and the device
  version. The decoding raises nothing. The buffer \<open>example_device_info\<close>, with
  five empty arrays and the strings \<open>Canon\<close>, \<open>Canon EOS R7\<close> and \<open>1.0.0\<close>,
  decodes to exactly these three strings.
\<close>

theorem parse_device_info_order:
  "parse_device_info data =
     (let offset1 = snd (read_ptp_string data 8);
          offset2 = offset1 + 2;
          offset3 = spec_skip_array data (spec_skip_array data (spec_skip_array data
                      (spec_skip_array data (spec_skip_array data offset2))));
          offset4 = snd (read_ptp_string data offset3);
          offset5 = snd (read_ptp_string data offset4)
      in Inr \<lparr>manufacturer = fst (read_ptp_string data offset3),
               model = fst (read_ptp_string data offset4),
               device_version = fst (read_ptp_string data offset5)\<rparr>) \<and>
   skip_uint16_array data offset = Inr (spec_skip_array data offset) \<and>
   parse_device_info example_device_info =
     Inr \<lparr>manufacturer = str_of ''Canon'', model = str_of ''Canon EOS R7'',
           device_version = str_of ''1.0.0''\<rparr>"
  by (intro conjI parse_device_info_unfold example_device_info_parsed skip_uint16_array_spec)

text \<open>An empty buffer: every skip stops, every string is empty.\<close>

theorem parse_device_info_order_witness:
  "parse_device_info [] = Inr \<lparr>manufacturer = [], model = [], device_version = []\<rparr> \<and>
   skip_uint16_array [] 10 = Inr 10"
  using parse_device_info_order [of "[]" 10]
  by (simp add: read_ptp_string_def spec_skip_array_def)

section \<open>Transactions and sessions: the claims\<close>

text \<open>
  Claim C8. On a connected transport, every call of \<open>send_command\<close> leaves the
  counter exactly 1 greater than it found it, whatever the outcome, and leaves the
  transport connected, so each call draws a transaction id exactly 1 greater than
  the call before it. The packets of one call (none if the command could not be
  sent, else the Command container, then the Data container if a payload was
  given) all carry the id that the call drew; a call that returns a result has
  written the Command container, and the Data container exactly when a payload was
  given. When the exchange of \<open>open_session\<close> returns the response code OK, the
  session is open and the counter is 0, so the next command draws the id 0.
\<close>

theorem transaction_id_sequence:
  "(connected self \<longrightarrow>
      priv_transaction_id (snd (send_command self operation_code params data)) =
        priv_transaction_id self + 1 \<and>
      connected (snd (send_command self operation_code params data)) \<and>
      (\<exists>new. packets_written (snd (send_command self operation_code params data)) =
               packets_written self @ new \<and>
             list_all (\<lambda>p. packet_tid p = priv_transaction_id self) new \<and>
             (map packet_type new = [] \<or> map packet_type new = [COMMAND] \<or>
              map packet_type new = [COMMAND, DATA]) \<and>
             ((\<exists>r. fst (send_command self operation_code params data) = Inr r) \<longrightarrow>
                map packet_type new =
                  (case data of None \<Rightarrow> [COMMAND] | Some d \<Rightarrow> [COMMAND, DATA])))) \<and>
   (\<forall>d self'. send_command self OPEN_SESSION (Some [1]) None = (Inr (OK, d), self') \<longrightarrow>
      open_session self = (Inr (), self'\<lparr>priv_transaction_id := 0\<rparr>)) \<and>
   (\<forall>self'. open_session self = (Inr (), self') \<longrightarrow>
      priv_transaction_id self' = 0 \<and> fst (transaction_id self') = 0)"
proof -
  have a: "\<forall>d self'. send_command self OPEN_SESSION (Some [1]) None = (Inr (OK, d), self') \<longrightarrow>
      open_session self = (Inr (), self'\<lparr>priv_transaction_id := 0\<rparr>)"
    by (simp add: open_session_def reset_transaction_id_def)
  have b: "\<forall>self'. open_session self = (Inr (), self') \<longrightarrow>
      priv_transaction_id self' = 0 \<and> fst (transaction_id self') = 0"
    by (auto simp: open_session_def reset_transaction_id_def transaction_id_def
        split: prod.splits sum.splits if_splits)
  show ?thesis
    using a b send_command_effect [of self operation_code params data] by blast
qed

text \<open>
  The example transport, with the counter at 7: \<open>open_session\<close> sends its command
  under the id 7 and resets the counter; the next command, with a payload, sends
  its two containers under the id 0 and leaves the counter at 1.
\<close>

theorem transaction_id_sequence_witness:
  "connected example_transport \<and>
   fst (open_session example_transport) = Inr () \<and>
   priv_transaction_id (snd (open_session example_transport)) = 0 \<and>
   connected (snd (open_session example_transport)) \<and>
   fst (send_command (snd (open_session example_transport)) GET_EVENT None (Some [0xAA])) =
     Inr (OK, []) \<and>
   map packet_tid (packets_written
     (snd (send_command (snd (open_session example_transport)) GET_EVENT None (Some [0xAA])))) =
     [7, 0, 0] \<and>
   map packet_type (packets_written
     (snd (send_command (snd (open_session example_transport)) GET_EVENT None (Some [0xAA])))) =
     [COMMAND, COMMAND, DATA] \<and>
   priv_transaction_id
     (snd (send_command (snd (open_session example_transport)) GET_EVENT None (Some [0xAA]))) = 1"
proof -
  have c: "connected example_transport"
    by (simp add: connected_def example_transport_def)
  have o: "priv_transaction_id (snd (open_session example_transport)) = 0"
    using transaction_id_sequence [of example_transport] example_open_session by simp
  have c': "connected (snd (open_session example_transport))"
    by (simp add: example_open_session connected_def)
  have n: "priv_transaction_id
     (snd (send_command (snd (open_session example_transport)) GET_EVENT None (Some [0xAA]))) = 1"
    using transaction_id_sequence [of "snd (open_session example_transport)" GET_EVENT None "Some [0xAA]"] c' o
    by simp
  show ?thesis
    using c o c' n
    by (simp add: example_open_session example_event_command packets_written_def packet_tid_def packet_type_def slice_def
        COMMAND_def DATA_def)
qed

text \<open>
  Claim C9. \<open>close_session\<close> never raises: whatever the CloseSession exchange
  does (no connection, a failed write or read, a malformed container, a value
  that cannot be packed, a response code other than OK), \<open>close_session\<close>
  returns normally, in the state in which the exchange left the transport.
\<close>

theorem close_session_never_raises:
  "fst (close_session self) = Inr () \<and>
   snd (close_session self) = snd (send_command self CLOSE_SESSION None None)"
proof (cases "send_command self CLOSE_SESSION None None")
  case (Pair r self')
  show ?thesis
  proof (cases r)
    case (Inl e)
    with Pair show ?thesis by (cases e) (simp_all add: close_session_def)
  next
    case (Inr v)
    with Pair show ?thesis by (simp add: close_session_def)
  qed
qed

text \<open>
  Three exchanges that fail: the transport has no in-endpoint; the read of the
  response fails; the device answers DeviceBusy (\<open>0x2019\<close>).
\<close>

theorem close_session_never_raises_witness:
  "fst (send_command (example_transport\<lparr>in_ep := None\<rparr>) CLOSE_SESSION None None) =
     Inl USBTransportError \<and>
   fst (close_session (example_transport\<lparr>in_ep := None\<rparr>)) = Inr () \<and>
   fst (send_command (example_transport\<lparr>in_ep := Some [ReadFails]\<rparr>) CLOSE_SESSION None None) =
     Inl USBTransportError \<and>
   fst (close_session (example_transport\<lparr>in_ep := Some [ReadFails]\<rparr>)) = Inr () \<and>
   fst (send_command
         (example_transport\<lparr>in_ep := Some [Delivers [12,0,0,0, 3,0, 0x19,0x20, 7,0,0,0]]\<rparr>)
         CLOSE_SESSION None None) = Inr (0x2019, []) \<and>
   fst (close_session
         (example_transport\<lparr>in_ep := Some [Delivers [12,0,0,0, 3,0, 0x19,0x20, 7,0,0,0]]\<rparr>)) =
     Inr ()"
  using close_session_never_raises [of "example_transport\<lparr>in_ep := None\<rparr>"]
    close_session_never_raises [of "example_transport\<lparr>in_ep := Some [ReadFails]\<rparr>"]
    close_session_never_raises
      [of "example_transport\<lparr>in_ep := Some [Delivers [12,0,0,0, 3,0, 0x19,0x20, 7,0,0,0]]\<rparr>"]
    example_close_disconnected example_close_read_fails example_close_busy
  by simp

section \<open>Receiving containers: the claims\<close>

text \<open>
  Claim C2, amended. In \<open>send_command\<close>, after a Data container has been
  received and reassembled, the loop reads the next container with the
  reassembled payload as the data to return. If that container is of type
  Response, \<open>send_command\<close> returns its code with this data. If it is of any type
  other than Response and Data, or shorter than the 12-byte header,
  \<open>send_command\<close> fails with \<open>USBTransportError\<close> (the transport's one error
  class, the spec's ProtocolError here) and returns no result. If it is a Data
  container again, it is handled as the first one was: it is reassembled, its
  payload replaces the data, and the loop reads on. With no fault on the
  out-channel, the result of \<open>send_command\<close> is the result of this loop, a
  \<open>USBError\<close> of a read being turned into \<open>USBTransportError\<close>.
\<close>

theorem next_container_after_data:
  "(12 \<le> length raw \<and> packet_type raw = DATA \<and>
    read_more (packet_len raw) (drop 12 raw) rest = (Inr payload, ep) \<longrightarrow>
      receive previous_data (Delivers raw # rest) =
        receive (prefix_to payload (int (packet_len raw) - 12)) ep) \<and>
   (12 \<le> length next_raw \<and> packet_type next_raw = RESPONSE \<longrightarrow>
      receive response_data (Delivers next_raw # ep') =
        (Inr (packet_code next_raw, response_data), ep')) \<and>
   (12 \<le> length next_raw \<and> packet_type next_raw \<noteq> RESPONSE \<and>
    packet_type next_raw \<noteq> DATA \<longrightarrow>
      receive response_data (Delivers next_raw # ep') = (Inl USBTransportError, ep')) \<and>
   (length next_raw < 12 \<longrightarrow>
      receive response_data (Delivers next_raw # ep') = (Inl USBTransportError, ep')) \<and>
   (out_ep self = Some out \<and> in_ep self = Some inp \<and> write_faults out = [] \<and>
    operation_code < 2 ^ 16 \<and> priv_transaction_id self < 2 ^ 32 \<longrightarrow>
      fst (send_command self operation_code None None) =
        (case fst (receive [] inp) of Inl e \<Rightarrow> Inl (wrap_usb_error e) | Inr r \<Rightarrow> Inr r))"
  using send_command_receives [of self out inp operation_code]
  by (auto simp: receive_Delivers DATA_def RESPONSE_def)

text \<open>
  A Data container of 2 payload bytes followed by the response; then, after this
  data, a container of type 4 and a packet of 3 bytes; and the exchange of a
  command whose answer is the response alone.
\<close>

theorem next_container_after_data_witness:
  "receive [] [Delivers [14,0,0,0, 2,0, 0x16,0x91, 7,0,0,0, 0xAA,0xBB],
               Delivers [12,0,0,0, 3,0, 0x01,0x20, 7,0,0,0]] = (Inr (OK, [0xAA,0xBB]), []) \<and>
   receive [0xAA,0xBB] [Delivers [12,0,0,0, 4,0, 0x01,0x20, 7,0,0,0]] =
     (Inl USBTransportError, []) \<and>
   receive [0xAA,0xBB] [Delivers [1,2,3]] = (Inl USBTransportError, []) \<and>
   fst (send_command
          (example_transport\<lparr>in_ep := Some [Delivers [12,0,0,0, 3,0, 0x01,0x20, 7,0,0,0]]\<rparr>)
          GET_EVENT None None) = Inr (OK, [])"
proof -
  have a: "receive [] [Delivers [14,0,0,0, 2,0, 0x16,0x91, 7,0,0,0, 0xAA,0xBB],
               Delivers [12,0,0,0, 3,0, 0x01,0x20, 7,0,0,0]] =
      receive [0xAA,0xBB] [Delivers [12,0,0,0, 3,0, 0x01,0x20, 7,0,0,0]]"
    using next_container_after_data
      [where raw = "[14,0,0,0, 2,0, 0x16,0x91, 7,0,0,0, 0xAA,0xBB]"
        and rest = "[Delivers [12,0,0,0, 3,0, 0x01,0x20, 7,0,0,0]]"
        and payload = "[0xAA,0xBB]"
        and ep = "[Delivers [12,0,0,0, 3,0, 0x01,0x20, 7,0,0,0]]"
        and previous_data = "[]" and next_raw = "[]"]
    by (simp add: read_more_done packet_type_def packet_len_def slice_def prefix_to_def DATA_def)
  have b: "receive response_data [Delivers [12,0,0,0, 3,0, 0x01,0x20, 7,0,0,0]] =
      (Inr (OK, response_data), [])" for response_data
    using next_container_after_data
      [where next_raw = "[12,0,0,0, 3,0, 0x01,0x20, 7,0,0,0]" and ep' = "[]"
        and response_data = response_data and raw = "[]"]
    by (simp add: packet_type_def packet_code_def slice_def RESPONSE_def OK_def)
  have c: "receive [0xAA,0xBB] [Delivers [12,0,0,0, 4,0, 0x01,0x20, 7,0,0,0]] =
      (Inl USBTransportError, [])"
    using next_container_after_data
      [where next_raw = "[12,0,0,0, 4,0, 0x01,0x20, 7,0,0,0]" and ep' = "[]"
        and response_data = "[0xAA,0xBB]" and raw = "[]"]
    by (simp add: packet_type_def slice_def RESPONSE_def DATA_def)
  have d: "receive [0xAA,0xBB] [Delivers [1,2,3]] = (Inl USBTransportError, [])"
    using next_container_after_data
      [where next_raw = "[1,2,3]" and ep' = "[]" and response_data = "[0xAA,0xBB]"
        and raw = "[]"]
    by simp
  have e: "fst (send_command
          (example_transport\<lparr>in_ep := Some [Delivers [12,0,0,0, 3,0, 0x01,0x20, 7,0,0,0]]\<rparr>)
          GET_EVENT None None) = Inr (OK, [])"
    using next_container_after_data
      [where self = "example_transport\<lparr>in_ep := Some [Delivers [12,0,0,0, 3,0, 0x01,0x20, 7,0,0,0]]\<rparr>"
        and out = "\<lparr>written = [], write_faults = []\<rparr>"
        and inp = "[Delivers [12,0,0,0, 3,0, 0x01,0x20, 7,0,0,0]]"
        and operation_code = GET_EVENT and raw = "[]" and next_raw = "[]"]
      b [of "[]"]
    by (simp add: example_transport_def GET_EVENT_def)
  show ?thesis using a b [of "[0xAA,0xBB]"] c d e by simp
qed

text \<open>
  The claim as it was stated makes \<open>send_command\<close> fail when a second Data
  container follows the first. Here the first container is a complete Data
  container, the next one is a Data container too, and \<open>send_command\<close> returns
  the response code with the payload of the second.
\<close>

theorem second_data_container_counterexample:
  "packet_type [14,0,0,0, 2,0, 0x16,0x91, 7,0,0,0, 0xAA,0xBB] = DATA \<and>
   packet_len [14,0,0,0, 2,0, 0x16,0x91, 7,0,0,0, 0xAA,0xBB] =
     length [14,0,0,0, 2,0, 0x16,0x91, 7,0,0,0, 0xAA,0xBB :: byte] \<and>
   packet_type [13,0,0,0, 2,0, 0x16,0x91, 7,0,0,0, 0xCC] = DATA \<and>
   packet_type [13,0,0,0, 2,0, 0x16,0x91, 7,0,0,0, 0xCC] \<noteq> RESPONSE \<and>
   fst (send_command
          (example_transport\<lparr>in_ep := Some
             [Delivers [14,0,0,0, 2,0, 0x16,0x91, 7,0,0,0, 0xAA,0xBB],
              Delivers [13,0,0,0, 2,0, 0x16,0x91, 7,0,0,0, 0xCC],
              Delivers [12,0,0,0, 3,0, 0x01,0x20, 7,0,0,0]]\<rparr>)
          GET_EVENT None None) = Inr (OK, [0xCC])"
  by (simp add: example_get_event_command receive_response_def example_two_data packet_type_def packet_len_def slice_def
      DATA_def RESPONSE_def)

text \<open>
  Claim C7, amended. When a container read by \<open>send_command\<close> is of type Data
  with a declared length \<open>pkt_len\<close> of at least 12, the remainder of the first
  read is the first chunk, further reads are issued and appended until the
  accumulated bytes reach \<open>pkt_len - 12\<close> (none when the first read holds them
  all), and the result is truncated to exactly \<open>pkt_len - 12\<close> bytes, whatever
  the number of reads and the padding of the last one. If the next container is
  the Response, this is the data that \<open>send_command\<close> returns, of exactly the
  declared length. What a declared length below 12 yields is left open.
\<close>

theorem data_reassembly:
  "(reassembles pkt_len first_chunk chunks \<longrightarrow>
      read_more pkt_len first_chunk (map Delivers chunks @ rest) =
        (Inr (first_chunk @ concat chunks), rest)) \<and>
   (12 \<le> pkt_len \<and> read_more pkt_len first_chunk ep = (Inr payload, ep') \<longrightarrow>
      prefix_to payload (int pkt_len - 12) = take (pkt_len - 12) payload \<and>
      length (prefix_to payload (int pkt_len - 12)) = pkt_len - 12) \<and>
   (12 \<le> length raw \<and> packet_type raw = DATA \<and> 12 \<le> packet_len raw \<and>
    reassembles (packet_len raw) (drop 12 raw) chunks \<and>
    12 \<le> length resp \<and> packet_type resp = RESPONSE \<longrightarrow>
      receive response_data (Delivers raw # map Delivers chunks @ Delivers resp # rest) =
        (Inr (packet_code resp, take (packet_len raw - 12) (drop 12 raw @ concat chunks)), rest) \<and>
      length (take (packet_len raw - 12) (drop 12 raw @ concat chunks)) = packet_len raw - 12)"
proof -
  have a: "reassembles pkt_len first_chunk chunks \<longrightarrow>
      read_more pkt_len first_chunk (map Delivers chunks @ rest) =
        (Inr (first_chunk @ concat chunks), rest)"
    by (simp add: read_more_reassembles)
  have b: "12 \<le> pkt_len \<and> read_more pkt_len first_chunk ep = (Inr payload, ep') \<longrightarrow>
      prefix_to payload (int pkt_len - 12) = take (pkt_len - 12) payload \<and>
      length (prefix_to payload (int pkt_len - 12)) = pkt_len - 12"
    using read_more_result [of pkt_len first_chunk ep payload ep']
    by (auto simp: prefix_to_take)
  have c: "12 \<le> length raw \<and> packet_type raw = DATA \<and> 12 \<le> packet_len raw \<and>
    reassembles (packet_len raw) (drop 12 raw) chunks \<and>
    12 \<le> length resp \<and> packet_type resp = RESPONSE \<longrightarrow>
      receive response_data (Delivers raw # map Delivers chunks @ Delivers resp # rest) =
        (Inr (packet_code resp, take (packet_len raw - 12) (drop 12 raw @ concat chunks)), rest) \<and>
      length (take (packet_len raw - 12) (drop 12 raw @ concat chunks)) = packet_len raw - 12"
  proof (intro impI, elim conjE)
    assume h: "12 \<le> length raw" "packet_type raw = DATA" "12 \<le> packet_len raw"
      "reassembles (packet_len raw) (drop 12 raw) chunks"
      "12 \<le> length resp" "packet_type resp = RESPONSE"
    have rm: "read_more (packet_len raw) (drop 12 raw) (map Delivers chunks @ Delivers resp # rest) =
        (Inr (drop 12 raw @ concat chunks), Delivers resp # rest)"
      using read_more_reassembles [OF h(4)] by simp
    have "receive response_data (Delivers raw # map Delivers chunks @ Delivers resp # rest) =
        receive (take (packet_len raw - 12) (drop 12 raw @ concat chunks)) (Delivers resp # rest)"
      using h(1,2,3) by (simp add: receive_Delivers [of _ raw] rm prefix_to_take)
    also have "\<dots> = (Inr (packet_code resp, take (packet_len raw - 12) (drop 12 raw @ concat chunks)), rest)"
      using h(5,6) by (simp add: receive_Delivers [of _ resp] DATA_def RESPONSE_def)
    finally have r: "receive response_data (Delivers raw # map Delivers chunks @ Delivers resp # rest) =
        (Inr (packet_code resp, take (packet_len raw - 12) (drop 12 raw @ concat chunks)), rest)" .
    have "packet_len raw \<le> length (drop 12 raw @ concat chunks) + 12"
      using h(4) by (simp add: reassembles_def)
    then have "length (take (packet_len raw - 12) (drop 12 raw @ concat chunks)) = packet_len raw - 12"
      by (rule length_take_declared)
    with r show "receive response_data (Delivers raw # map Delivers chunks @ Delivers resp # rest) =
        (Inr (packet_code resp, take (packet_len raw - 12) (drop 12 raw @ concat chunks)), rest) \<and>
      length (take (packet_len raw - 12) (drop 12 raw @ concat chunks)) = packet_len raw - 12"
      by (rule conjI)
  qed
  show ?thesis using a b c by blast
qed

text \<open>
  A declared length of 22 met by three reads of 4 payload bytes each, the last
  with 2 bytes of padding: the 10 bytes are returned.
\<close>

theorem data_reassembly_witness:
  "reassembles 22 [1,2,3,4] [[5,6,7,8], [9,10,0,0]] \<and>
   read_more 22 [1,2,3,4] [Delivers [5,6,7,8], Delivers [9,10,0,0], Delivers [12,0,0,0, 3,0, 0x01,0x20, 7,0,0,0]] =
     (Inr [1,2,3,4,5,6,7,8,9,10,0,0], [Delivers [12,0,0,0, 3,0, 0x01,0x20, 7,0,0,0]]) \<and>
   receive []
     [Delivers [22,0,0,0, 2,0, 0x16,0x91, 7,0,0,0, 1,2,3,4],
      Delivers [5,6,7,8],
      Delivers [9,10,0,0],
      Delivers [12,0,0,0, 3,0, 0x01,0x20, 7,0,0,0]] = (Inr (OK, [1,2,3,4,5,6,7,8,9,10]), []) \<and>
   length [1,2,3,4,5,6,7,8,9,10 :: byte] = 22 - 12"
proof -
  have r: "reassembles 22 [1,2,3,4 :: byte] [[5,6,7,8], [9,10,0,0]]"
    by (simp add: reassembles_def)
  have a: "read_more 22 [1,2,3,4] [Delivers [5,6,7,8], Delivers [9,10,0,0], Delivers [12,0,0,0, 3,0, 0x01,0x20, 7,0,0,0]] =
     (Inr [1,2,3,4,5,6,7,8,9,10,0,0], [Delivers [12,0,0,0, 3,0, 0x01,0x20, 7,0,0,0]])"
    using r data_reassembly
      [where pkt_len = 22 and first_chunk = "[1,2,3,4]" and chunks = "[[5,6,7,8], [9,10,0,0]]"
        and rest = "[Delivers [12,0,0,0, 3,0, 0x01,0x20, 7,0,0,0]]"
        and raw = "[]" and payload = "[]" and ep = "[]"]
    by simp
  have b: "receive []
     [Delivers [22,0,0,0, 2,0, 0x16,0x91, 7,0,0,0, 1,2,3,4],
      Delivers [5,6,7,8],
      Delivers [9,10,0,0],
      Delivers [12,0,0,0, 3,0, 0x01,0x20, 7,0,0,0]] = (Inr (OK, [1,2,3,4,5,6,7,8,9,10]), [])"
    using r data_reassembly
      [where raw = "[22,0,0,0, 2,0, 0x16,0x91, 7,0,0,0, 1,2,3,4]"
        and chunks = "[[5,6,7,8], [9,10,0,0]]"
        and resp = "[12,0,0,0, 3,0, 0x01,0x20, 7,0,0,0]" and rest = "[]"
        and response_data = "[]" and pkt_len = 0 and first_chunk = "[]" and payload = "[]"
        and ep = "[]"]
    by (simp add: packet_type_def packet_len_def packet_code_def slice_def DATA_def
        RESPONSE_def OK_def)
  show ?thesis using r a b by simp
qed

text \<open>
  The claim as it was stated gives the returned data the declared length of the
  first Data container. Here the first container declares 16, that is 4 payload
  bytes, a second Data container with 1 payload byte follows, and \<open>send_command\<close>
  returns 1 byte.
\<close>

theorem returned_length_counterexample:
  "packet_type [16,0,0,0, 2,0, 0x16,0x91, 7,0,0,0, 1,2,3,4] = DATA \<and>
   packet_len [16,0,0,0, 2,0, 0x16,0x91, 7,0,0,0, 1,2,3,4] = 16 \<and>
   fst (send_command
          (example_transport\<lparr>in_ep := Some
             [Delivers [16,0,0,0, 2,0, 0x16,0x91, 7,0,0,0, 1,2,3,4],
              Delivers [13,0,0,0, 2,0, 0x16,0x91, 7,0,0,0, 9],
              Delivers [12,0,0,0, 3,0, 0x01,0x20, 7,0,0,0]]\<rparr>)
          GET_EVENT None None) = Inr (OK, [9]) \<and>
   length [9 :: byte] \<noteq> 16 - 12"
  by (simp add: example_get_event_command receive_response_def example_two_data_second packet_type_def packet_len_def slice_def
      DATA_def)

section \<open>Shutter counters: the claim\<close>

text \<open>
  Claim C1. For every list of events, and so for every list that \<open>get_event\<close>
  returns, \<open>get_shutter_count\<close> returns the pair of the little-endian u32 at the
  byte offsets \<open>[8,12)\<close> and of the little-endian u32 at \<open>[12,16)\<close> of the value
  of the first event whose property code is the shutter-release-counter code
  \<open>0xD167\<close> and whose value is the raw-bytes variant of length at least 16; if
  no event of the list is such (another code, a shorter value, or the integer
  variant), it returns nothing. It raises nothing of its own.
\<close>

theorem shutter_counters_of_first_match:
  "shutter_count_scan events =
     Inr (case find is_counter_event events of
            None \<Rightarrow> None
          | Some event \<Rightarrow> Some (counters_of event)) \<and>
   (get_event self = (Inr events, self') \<longrightarrow>
      get_shutter_count self =
        (Inr (case find is_counter_event events of
                None \<Rightarrow> None
              | Some event \<Rightarrow> Some (counters_of event)), self'))"
proof -
  have scan: "shutter_count_scan events =
     Inr (case find is_counter_event events of
            None \<Rightarrow> None
          | Some event \<Rightarrow> Some (counters_of event))" for events
  proof (induction events)
    case Nil
    show ?case by simp
  next
    case (Cons event events)
    show ?case
    proof (cases "is_counter_event event")
      case True
      then obtain b where b: "property_value event = BytesValue b" "16 \<le> length b"
        "property_code event = SHUTTER_RELEASE_COUNTER"
        by (auto simp: is_counter_event_def split: prop_value.splits)
      then show ?thesis using True
        by (simp add: unpack_II_slice counters_of_def)
    next
      case False
      then show ?thesis using Cons.IH
        by (auto simp: is_counter_event_def split: prop_value.splits)
    qed
  qed
  then show ?thesis by (simp add: get_shutter_count_def)
qed

text \<open>
  The spec's example, through the transport: the answer to GetEvent holds one
  event for \<open>0xD167\<close>, and the counters are \<open>(150000, 150000)\<close>. Then a list in
  which an integer value, a value of 15 bytes and another property code come
  before two matching events: the first of the two decides. Without them, nothing
  is returned.
\<close>

theorem shutter_counters_of_first_match_witness:
  "get_event (example_transport\<lparr>in_ep := Some
     [Delivers ([48,0,0,0, 2,0, 0x16,0x91, 7,0,0,0] @ example_event_buffer),
      Delivers [12,0,0,0, 3,0, 0x01,0x20, 7,0,0,0]]\<rparr>) =
   (Inr [\<lparr>property_code = 0xD167,
      property_value = BytesValue [0,0,0,0, 0,0,0,0, 0xF0,0x49,0x02,0, 0xF0,0x49,0x02,0]\<rparr>],
    \<lparr>out_ep = Some \<lparr>written = [[12,0,0,0, 1,0, 0x16,0x91, 7,0,0,0]], write_faults = []\<rparr>,
      in_ep = Some [], priv_transaction_id = 8\<rparr>) \<and>
   fst (get_shutter_count (example_transport\<lparr>in_ep := Some
     [Delivers ([48,0,0,0, 2,0, 0x16,0x91, 7,0,0,0] @ example_event_buffer),
      Delivers [12,0,0,0, 3,0, 0x01,0x20, 7,0,0,0]]\<rparr>)) = Inr (Some (150000, 150000)) \<and>
   shutter_count_scan
     [\<lparr>property_code = 0xD167, property_value = IntValue 5\<rparr>,
      \<lparr>property_code = 0xD167, property_value = BytesValue [1,2,3,4,5,6,7,8,9,10,11,12,13,14,15]\<rparr>,
      \<lparr>property_code = 0xD166, property_value = BytesValue [0,0,0,0, 0,0,0,0, 9,0,0,0, 9,0,0,0]\<rparr>,
      \<lparr>property_code = 0xD167, property_value = BytesValue [0,0,0,0, 0,0,0,0, 1,0,0,0, 2,1,0,0, 7]\<rparr>,
      \<lparr>property_code = 0xD167, property_value = BytesValue [0,0,0,0, 0,0,0,0, 3,0,0,0, 4,0,0,0]\<rparr>] =
     Inr (Some (1, 258)) \<and>
   shutter_count_scan
     [\<lparr>property_code = 0xD167, property_value = IntValue 5\<rparr>,
      \<lparr>property_code = 0xD167, property_value = BytesValue [1,2,3,4,5,6,7,8,9,10,11,12,13,14,15]\<rparr>,
      \<lparr>property_code = 0xD166, property_value = BytesValue [0,0,0,0, 0,0,0,0, 9,0,0,0, 9,0,0,0]\<rparr>] =
     Inr None"
proof -
  have a: "fst (get_shutter_count (example_transport\<lparr>in_ep := Some
     [Delivers ([48,0,0,0, 2,0, 0x16,0x91, 7,0,0,0] @ example_event_buffer),
      Delivers [12,0,0,0, 3,0, 0x01,0x20, 7,0,0,0]]\<rparr>)) = Inr (Some (150000, 150000))"
    using example_get_event shutter_counters_of_first_match [of "[\<lparr>property_code = 0xD167,
      property_value = BytesValue [0,0,0,0, 0,0,0,0, 0xF0,0x49,0x02,0, 0xF0,0x49,0x02,0]\<rparr>]"
      "example_transport\<lparr>in_ep := Some
     [Delivers ([48,0,0,0, 2,0, 0x16,0x91, 7,0,0,0] @ example_event_buffer),
      Delivers [12,0,0,0, 3,0, 0x01,0x20, 7,0,0,0]]\<rparr>"
      "\<lparr>out_ep = Some \<lparr>written = [[12,0,0,0, 1,0, 0x16,0x91, 7,0,0,0]], write_faults = []\<rparr>,
      in_ep = Some [], priv_transaction_id = 8\<rparr>"]
    by (simp add: is_counter_event_def counters_of_def slice_def SHUTTER_RELEASE_COUNTER_def)
  have b: "shutter_count_scan
     [\<lparr>property_code = 0xD167, property_value = IntValue 5\<rparr>,
      \<lparr>property_code = 0xD167, property_value = BytesValue [1,2,3,4,5,6,7,8,9,10,11,12,13,14,15]\<rparr>,
      \<lparr>property_code = 0xD166, property_value = BytesValue [0,0,0,0, 0,0,0,0, 9,0,0,0, 9,0,0,0]\<rparr>,
      \<lparr>property_code = 0xD167, property_value = BytesValue [0,0,0,0, 0,0,0,0, 1,0,0,0, 2,1,0,0, 7]\<rparr>,
      \<lparr>property_code = 0xD167, property_value = BytesValue [0,0,0,0, 0,0,0,0, 3,0,0,0, 4,0,0,0]\<rparr>] =
     Inr (Some (1, 258))"
    by (simp add: conjunct1 [OF shutter_counters_of_first_match] is_counter_event_def counters_of_def slice_def
        SHUTTER_RELEASE_COUNTER_def)
  have c: "shutter_count_scan
     [\<lparr>property_code = 0xD167, property_value = IntValue 5\<rparr>,
      \<lparr>property_code = 0xD167, property_value = BytesValue [1,2,3,4,5,6,7,8,9,10,11,12,13,14,15]\<rparr>,
      \<lparr>property_code = 0xD166, property_value = BytesValue [0,0,0,0, 0,0,0,0, 9,0,0,0, 9,0,0,0]\<rparr>] =
     Inr None"
    by (simp add: conjunct1 [OF shutter_counters_of_first_match] is_counter_event_def SHUTTER_RELEASE_COUNTER_def)
  show ?thesis using example_get_event a b c by simp
qed

end
